theory Spec2Isabelle
  imports
    Complex_Main
    "HOL-Library.Sublist"
    "HOL-Library.Char_ord"
    "HOL-Library.List_Lexorder"
    "HOL-Library.Product_Lexorder"
begin

section \<open>The relational data model\<close>

text \<open>
  The tables that \<^verbatim>\<open>robotics_photo_db.py\<close> reads and writes. A table is the list of its
  rows in insertion order. Identifiers are SQLite rowids (\<open>int\<close>), texts are \<open>string\<close>,
  nullable columns are \<open>option\<close>.
\<close>

record category =
  cat_id :: int
  cat_name :: string

record robot =
  robot_id :: int
  r_category_id :: int
  manufacturer :: string
  model_name :: string
  robot_type :: string
  year_released :: "int option"
  specifications :: "string option"

record photo =
  photo_id :: int
  p_robot_id :: int
  file_name :: string
  file_path :: string
  upload_date :: string
  photo_type :: string
  file_size_kb :: int
  description :: "string option"
  photographer :: "string option"

record tag =
  tag_id :: int
  tag_name :: string

record photo_tag =
  pt_photo_id :: int
  pt_tag_id :: int

record database =
  robot_categories :: "category list"
  robots :: "robot list"
  photos :: "photo list"
  tags :: "tag list"
  photo_tags :: "photo_tag list"

section \<open>The connection and the file system\<close>

text \<open>
  A \<^verbatim>\<open>RoboticsPhotoDatabase\<close> object together with the world it acts on. \<open>working\<close> is
  the database as the object's own connection sees it (its open transaction included),
  \<open>committed\<close> is the durable database that every other connection reads, and
  \<open>history\<close> lists the durable databases that \<open>committed\<close> replaced, newest first.
  \<open>files\<close> maps the path of a regular file to its size in bytes and \<open>dirs\<close> is the set
  of directories.
\<close>

record db_state =
  photo_storage :: string
  working :: database
  committed :: database
  history :: "database list"
  files :: "string \<rightharpoonup> nat"
  dirs :: "string set"

text \<open>The two readings of \<^verbatim>\<open>datetime.now()\<close> that \<^verbatim>\<open>add_photo\<close> formats.\<close>

record clock =
  timestamp :: string
  today :: string

datatype error =
    ValueError string
  | FileNotFoundError string
  | IsADirectoryError string
  | TypeError string
  | OverflowError string

text \<open>\<^verbatim>\<open>self.conn.commit()\<close>: the open transaction becomes durable.\<close>

definition commit :: "db_state \<Rightarrow> db_state" where
  "commit s = s\<lparr>history := committed s # history s, committed := working s\<rparr>"

text \<open>
  The rowid SQLite gives a row inserted without one: 1 in an empty table, otherwise one
  more than the largest rowid in use. It is what \<^verbatim>\<open>cursor.lastrowid\<close> returns.
\<close>

fun new_rowid :: "int list \<Rightarrow> int" where
  "new_rowid [] = 1"
| "new_rowid (x # xs) = fold max xs x + 1"

text \<open>
  The integers \<^verbatim>\<open>cursor.execute\<close> can bind as a parameter: those of SQLite's signed 64-bit
  \<^verbatim>\<open>INTEGER\<close>. Binding any other Python \<^verbatim>\<open>int\<close> raises \<^verbatim>\<open>OverflowError\<close> before the
  statement runs.
\<close>

definition sqlite_integer :: "int \<Rightarrow> bool" where
  "sqlite_integer i = (- (2 ^ 63) \<le> i \<and> i < 2 ^ 63)"

text \<open>Python truthiness of an optional string or list: \<^verbatim>\<open>None\<close> and the empty value are false.\<close>

definition supplied :: "'a list option \<Rightarrow> bool" where
  "supplied v = (case v of None \<Rightarrow> False | Some x \<Rightarrow> x \<noteq> [])"

subsection \<open>Text helpers\<close>

text \<open>Lower case for the ASCII letters; every other character is left alone.\<close>

definition lower_char :: "char \<Rightarrow> char" where
  "lower_char c =
     (case map_of (zip ''ABCDEFGHIJKLMNOPQRSTUVWXYZ'' ''abcdefghijklmnopqrstuvwxyz'') c of
        None \<Rightarrow> c
      | Some l \<Rightarrow> l)"

definition replace_char :: "char \<Rightarrow> char \<Rightarrow> string \<Rightarrow> string" where
  "replace_char a b s = map (\<lambda>c. if c = a then b else c) s"

definition path_name :: "string \<Rightarrow> string" where
  "path_name p = rev (takeWhile (\<lambda>c. c \<noteq> CHR ''/'') (rev p))"

definition path_parent :: "string \<Rightarrow> string" where
  "path_parent p = rev (drop 1 (dropWhile (\<lambda>c. c \<noteq> CHR ''/'') (rev p)))"

definition path_join :: "string \<Rightarrow> string \<Rightarrow> string" where
  "path_join a b = a @ ''/'' @ b"

fun str_nat :: "nat \<Rightarrow> string" where
  "str_nat n =
     (if n < 10 then [char_of (48 + n)] else str_nat (n div 10) @ [char_of (48 + n mod 10)])"

definition str_int :: "int \<Rightarrow> string" where
  "str_int i = (if i < 0 then ''-'' @ str_nat (nat (- i)) else str_nat (nat i))"

definition quoted :: "string \<Rightarrow> string" where
  "quoted s = [char_of (39 :: nat)] @ s @ [char_of (39 :: nat)]"

subsection \<open>The file system calls\<close>

text \<open>\<^verbatim>\<open>Path.exists()\<close>.\<close>

definition path_exists :: "db_state \<Rightarrow> string \<Rightarrow> bool" where
  "path_exists s p = (files s p \<noteq> None \<or> p \<in> dirs s)"

text \<open>
  \<^verbatim>\<open>shutil.copy2(src, dst)\<close> for a destination that is not itself a directory: the source
  must be a regular file and the directory of the destination must exist.
\<close>

definition copy2 :: "db_state \<Rightarrow> string \<Rightarrow> string \<Rightarrow> (error + unit) \<times> db_state" where
  "copy2 s src dst =
     (case files s src of
        None \<Rightarrow>
          (Inl (if src \<in> dirs s then IsADirectoryError src else FileNotFoundError src), s)
      | Some n \<Rightarrow>
          if path_parent dst \<in> dirs s
          then (Inr (), s\<lparr>files := (files s)(dst \<mapsto> n)\<rparr>)
          else (Inl (FileNotFoundError dst), s))"

text \<open>\<^verbatim>\<open>Path.stat().st_size\<close>.\<close>

definition st_size :: "db_state \<Rightarrow> string \<Rightarrow> error + nat" where
  "st_size s p = (case files s p of None \<Rightarrow> Inl (FileNotFoundError p) | Some n \<Rightarrow> Inr n)"

section \<open>The SQL statements\<close>

text \<open>\<^verbatim>\<open>SELECT category_id FROM robot_categories WHERE category_name = ?\<close>\<close>

definition select_category_id :: "database \<Rightarrow> string \<Rightarrow> int list" where
  "select_category_id db cname = [cat_id c. c \<leftarrow> robot_categories db, cat_name c = cname]"

text \<open>\<^verbatim>\<open>INSERT INTO robots (...) VALUES (...)\<close>, the rowid being generated.\<close>

definition insert_robot ::
  "database \<Rightarrow> int \<Rightarrow> string \<Rightarrow> string \<Rightarrow> string \<Rightarrow> int option \<Rightarrow> string option
    \<Rightarrow> int \<times> database" where
  "insert_robot db cid manuf model rtype yr specs =
     (let rid = new_rowid (map robot_id (robots db));
          row = \<lparr>robot_id = rid, r_category_id = cid, manufacturer = manuf,
                 model_name = model, robot_type = rtype, year_released = yr,
                 specifications = specs\<rparr>
      in (rid, db\<lparr>robots := robots db @ [row]\<rparr>))"

text \<open>
  \<^verbatim>\<open>SELECT rc.category_name FROM robots r JOIN robot_categories rc
  ON r.category_id = rc.category_id WHERE r.robot_id = ?\<close>
\<close>

definition select_robot_category :: "database \<Rightarrow> int \<Rightarrow> string list" where
  "select_robot_category db rid =
     [cat_name c. r \<leftarrow> robots db, c \<leftarrow> robot_categories db,
        r_category_id r = cat_id c, robot_id r = rid]"

text \<open>\<^verbatim>\<open>INSERT INTO photos (...) VALUES (...)\<close>, the rowid being generated.\<close>

definition insert_photo ::
  "database \<Rightarrow> int \<Rightarrow> string \<Rightarrow> string \<Rightarrow> string \<Rightarrow> string \<Rightarrow> int \<Rightarrow> string option
    \<Rightarrow> string option \<Rightarrow> int \<times> database" where
  "insert_photo db rid fname fpath date ptype kb descr phot =
     (let pid = new_rowid (map photo_id (photos db));
          row = \<lparr>photo_id = pid, p_robot_id = rid, file_name = fname, file_path = fpath,
                 upload_date = date, photo_type = ptype, file_size_kb = kb,
                 description = descr, photographer = phot\<rparr>
      in (pid, db\<lparr>photos := photos db @ [row]\<rparr>))"

text \<open>
  Modelled from the spec: the schema file \<^verbatim>\<open>database_schema.sql\<close> is not among the
  sources, so the conflict that \<^verbatim>\<open>INSERT OR IGNORE INTO tags (tag_name)\<close> ignores is taken
  from the data model of the specification, "Tag: unique by name, created lazily on first
  use": the row is added unless a tag of that name exists.
\<close>

definition insert_or_ignore_tag :: "database \<Rightarrow> string \<Rightarrow> database" where
  "insert_or_ignore_tag db name =
     (if name \<in> set (map tag_name (tags db)) then db
      else db\<lparr>tags := tags db @
             [\<lparr>tag_id = new_rowid (map tag_id (tags db)), tag_name = name\<rparr>]\<rparr>)"

text \<open>\<^verbatim>\<open>SELECT tag_id FROM tags WHERE tag_name = ?\<close>\<close>

definition select_tag_id :: "database \<Rightarrow> string \<Rightarrow> int list" where
  "select_tag_id db name = [tag_id t. t \<leftarrow> tags db, tag_name t = name]"

text \<open>
  Modelled from the spec: the schema file \<^verbatim>\<open>database_schema.sql\<close> is not among the
  sources, so the conflict that \<^verbatim>\<open>INSERT OR IGNORE INTO photo_tags (photo_id, tag_id)\<close>
  ignores is taken from the data model of the specification, "PhotoTag: duplicate links
  are idempotent (insert-if-absent)": the link is added unless the same pair exists.
  The connection never switches foreign-key enforcement on, so the photo need not exist.
\<close>

definition insert_or_ignore_photo_tag :: "database \<Rightarrow> int \<Rightarrow> int \<Rightarrow> database" where
  "insert_or_ignore_photo_tag db pid tid =
     (if \<lparr>pt_photo_id = pid, pt_tag_id = tid\<rparr> \<in> set (photo_tags db) then db
      else db\<lparr>photo_tags := photo_tags db @ [\<lparr>pt_photo_id = pid, pt_tag_id = tid\<rparr>]\<rparr>)"

section \<open>The write operations\<close>

text \<open>
  Every operation returns what the method returns or raises, paired with the state it
  leaves behind; an exception keeps whatever was written before it. The robot identifier
  of \<^verbatim>\<open>add_photo\<close> comes from its caller as it is (the upload form passes
  \<^verbatim>\<open>int(request.form.get('robot_id'))\<close>), so binding it in the lookup can fail; the photo
  identifiers that \<^verbatim>\<open>add_photo\<close> hands to \<^verbatim>\<open>add_tag_to_photo\<close> are generated rowids.
\<close>

definition add_robot ::
  "db_state \<Rightarrow> string \<Rightarrow> string \<Rightarrow> string \<Rightarrow> string \<Rightarrow> int option \<Rightarrow> string option
    \<Rightarrow> (error + int) \<times> db_state" where
  "add_robot s cname manuf model rtype yr specs =
     (case select_category_id (working s) cname of
        [] \<Rightarrow> (Inl (ValueError (''Category '' @ quoted cname @ '' not found'')), s)
      | cid # _ \<Rightarrow>
          (case insert_robot (working s) cid manuf model rtype yr specs of
             (rid, db) \<Rightarrow> (Inr rid, commit (s\<lparr>working := db\<rparr>))))"

definition add_tag_to_photo :: "db_state \<Rightarrow> int \<Rightarrow> string \<Rightarrow> (error + unit) \<times> db_state" where
  "add_tag_to_photo s pid name =
     (let s1 = s\<lparr>working := insert_or_ignore_tag (working s) name\<rparr> in
      case select_tag_id (working s1) name of
        [] \<Rightarrow> (Inl (TypeError (quoted ''NoneType'' @ '' object is not subscriptable'')), s1)
      | tid # _ \<Rightarrow>
          (Inr (), commit (s1\<lparr>working := insert_or_ignore_photo_tag (working s1) pid tid\<rparr>)))"

text \<open>The loop \<^verbatim>\<open>for tag_name in tags: self.add_tag_to_photo(photo_id, tag_name)\<close>.\<close>

fun add_tags :: "db_state \<Rightarrow> int \<Rightarrow> string list \<Rightarrow> (error + unit) \<times> db_state" where
  "add_tags s pid [] = (Inr (), s)"
| "add_tags s pid (name # names) =
     (case add_tag_to_photo s pid name of
        (Inl e, s') \<Rightarrow> (Inl e, s')
      | (Inr u, s') \<Rightarrow> add_tags s' pid names)"

definition add_photo ::
  "db_state \<Rightarrow> clock \<Rightarrow> int \<Rightarrow> string \<Rightarrow> string \<Rightarrow> string option \<Rightarrow> string list option
    \<Rightarrow> string option \<Rightarrow> (error + int) \<times> db_state" where
  "add_photo s clk rid source_file ptype descr tgs phot =
     (if \<not> path_exists s source_file
      then (Inl (FileNotFoundError (''Source file not found: '' @ source_file)), s)
      else if \<not> sqlite_integer rid
      then (Inl (OverflowError ''Python int too large to convert to SQLite INTEGER''), s)
      else
        (case select_robot_category (working s) rid of
           [] \<Rightarrow> (Inl (ValueError (''Robot with ID '' @ str_int rid @ '' not found'')), s)
         | cname # _ \<Rightarrow>
            (let category = replace_char CHR '' '' CHR ''_'' (map lower_char cname);
                 fname = timestamp clk @ ''_'' @ path_name source_file;
                 dest_path = path_join (path_join (photo_storage s) category) fname
             in
               (case copy2 s source_file dest_path of
                  (Inl e, s1) \<Rightarrow> (Inl e, s1)
                | (Inr u, s1) \<Rightarrow>
                   (case st_size s1 dest_path of
                      Inl e \<Rightarrow> (Inl e, s1)
                    | Inr bytes \<Rightarrow>
                       (case insert_photo (working s1) rid fname dest_path (today clk) ptype
                               (int bytes div 1024) descr phot of
                          (pid, db) \<Rightarrow>
                            (let s2 = s1\<lparr>working := db\<rparr> in
                              (case (if supplied tgs then add_tags s2 pid (the tgs)
                                     else (Inr (), s2)) of
                                 (Inl e, s3) \<Rightarrow> (Inl e, s3)
                               | (Inr u, s3) \<Rightarrow> (Inr pid, commit s3)))))))))"

section \<open>The read operations\<close>








text \<open>The rows a \<^verbatim>\<open>LEFT JOIN\<close> pairs with one left row: the matches, or a single NULL row.\<close>

fun left_join :: "'a list \<Rightarrow> 'a option list" where
  "left_join [] = [None]"
| "left_join (x # xs) = map Some (x # xs)"

text \<open>
  \<^verbatim>\<open>FROM robot_categories rc LEFT JOIN robots r ON rc.category_id = r.category_id
  LEFT JOIN photos p ON r.robot_id = p.robot_id\<close>
\<close>

definition category_join :: "database \<Rightarrow> (category \<times> robot option \<times> photo option) list" where
  "category_join db =
     [(c, r, p).
        c \<leftarrow> robot_categories db,
        r \<leftarrow> left_join [r \<leftarrow> robots db. cat_id c = r_category_id r],
        p \<leftarrow> (case r of
               None \<Rightarrow> [None]
             | Some r' \<Rightarrow> left_join [p \<leftarrow> photos db. robot_id r' = p_robot_id p])]"

text \<open>
  \<^verbatim>\<open>SELECT rc.category_name, COUNT(p.photo_id) ... GROUP BY rc.category_name\<close>: one row for
  each category name of the join, counting the joined rows that carry a photo.
\<close>

definition select_photos_by_category :: "database \<Rightarrow> (string \<times> nat) list" where
  "select_photos_by_category db =
     (let j = category_join db in
      [(n, length [x \<leftarrow> j. cat_name (fst x) = n \<and> snd (snd x) \<noteq> None]).
         n \<leftarrow> remdups (map (\<lambda>x. cat_name (fst x)) j)])"

text \<open>\<^verbatim>\<open>SELECT SUM(file_size_kb) FROM photos\<close>: NULL over no rows.\<close>

definition select_sum_file_size :: "database \<Rightarrow> int option" where
  "select_sum_file_size db =
     (if photos db = [] then None else Some (sum_list (map file_size_kb (photos db))))"

text \<open>\<^verbatim>\<open>x or 0\<close> for an integer or \<^verbatim>\<open>None\<close>.\<close>

definition or_zero :: "int option \<Rightarrow> int" where
  "or_zero v = (case v of None \<Rightarrow> 0 | Some x \<Rightarrow> (if x = 0 then 0 else x))"

text \<open>
  \<^verbatim>\<open>round(x, 2)\<close>. Python rounds the exact value of the float to the nearest multiple of
  0.01, a tie going to the even multiple, and returns the float nearest to that decimal.
  The quotient \<^verbatim>\<open>total_kb / 1024\<close> is exact in binary floating point for every total
  below \<open>2 ^ 53\<close>, so the model computes on the rationals and stands for the returned
  float by the two-place decimal it denotes.
\<close>

definition round_half_even :: "rat \<Rightarrow> int" where
  "round_half_even q =
     (let f = \<lfloor>q\<rfloor>; d = q - of_int f
      in if d < 1 / 2 then f else if 1 / 2 < d then f + 1 else if even f then f else f + 1)"

definition py_round2 :: "rat \<Rightarrow> rat" where
  "py_round2 q = of_int (round_half_even (q * 100)) / 100"

record statistics =
  total_photos :: nat
  by_category :: "(string \<times> nat) list"
  total_robots :: nat
  total_storage_mb :: rat

definition get_statistics :: "db_state \<Rightarrow> statistics" where
  "get_statistics s =
     (let db = working s;
          total_kb = or_zero (select_sum_file_size db)
      in \<lparr>total_photos = length (photos db),
          by_category = select_photos_by_category db,
          total_robots = length (robots db),
          total_storage_mb = py_round2 (of_int total_kb / 1024)\<rparr>)"

record robot_row =
  rr_robot_id :: int
  rr_manufacturer :: string
  rr_model_name :: string
  rr_robot_type :: string
  rr_year_released :: "int option"
  rr_category_name :: string
  rr_photo_count :: nat

text \<open>
  \<^verbatim>\<open>FROM robots r JOIN robot_categories rc ON r.category_id = rc.category_id
  LEFT JOIN photos p ON r.robot_id = p.robot_id\<close>
\<close>

definition robot_join :: "database \<Rightarrow> (robot \<times> category \<times> photo option) list" where
  "robot_join db =
     [(r, c, p).
        r \<leftarrow> robots db,
        c \<leftarrow> robot_categories db, r_category_id r = cat_id c,
        p \<leftarrow> left_join [p \<leftarrow> photos db. robot_id r = p_robot_id p]]"

text \<open>
  One output row of \<^verbatim>\<open>GROUP BY r.robot_id\<close>: the plain columns come from a row of the
  group (here its first) and \<^verbatim>\<open>COUNT(p.photo_id)\<close> counts the rows that carry a photo.
\<close>

definition robot_group :: "(robot \<times> category \<times> photo option) list \<Rightarrow> robot_row list" where
  "robot_group g =
     (case g of
        [] \<Rightarrow> []
      | (r, c, p) # _ \<Rightarrow>
          [\<lparr>rr_robot_id = robot_id r, rr_manufacturer = manufacturer r,
            rr_model_name = model_name r, rr_robot_type = robot_type r,
            rr_year_released = year_released r, rr_category_name = cat_name c,
            rr_photo_count = length [x \<leftarrow> g. snd (snd x) \<noteq> None]\<rparr>])"

definition robot_order_key :: "robot_row \<Rightarrow> string \<times> string \<times> string" where
  "robot_order_key row = (rr_category_name row, rr_manufacturer row, rr_model_name row)"

text \<open>
  The query of \<^verbatim>\<open>list_all_robots\<close>, with
  \<^verbatim>\<open>ORDER BY rc.category_name, r.manufacturer, r.model_name\<close> under SQLite's default
  collation, which compares texts byte by byte.
\<close>

definition select_all_robots :: "database \<Rightarrow> robot_row list" where
  "select_all_robots db =
     (let j = robot_join db in
      sort_key robot_order_key
        (concat (map (\<lambda>rid. robot_group [x \<leftarrow> j. robot_id (fst x) = rid])
                     (remdups (map (\<lambda>x. robot_id (fst x)) j)))))"

definition list_all_robots :: "db_state \<Rightarrow> robot_row list" where
  "list_all_robots s = select_all_robots (working s)"

section \<open>Vocabulary of the properties\<close>

text \<open>
  The durable databases that existed between the start of a call, in state \<open>s\<close>, and
  its end, in state \<open>s'\<close>, newest first: what another connection could have read
  while the call ran.
\<close>

definition durable_during :: "db_state \<Rightarrow> db_state \<Rightarrow> database list" where
  "durable_during s s' =
     committed s' # take (length (history s') - length (history s)) (history s')"

text \<open>The identifiers of the photos, the names of the tags and the links of a database.\<close>

definition table_summary :: "database \<Rightarrow> int list \<times> string list \<times> (int \<times> int) list" where
  "table_summary db =
     (map photo_id (photos db), map tag_name (tags db),
      map (\<lambda>l. (pt_photo_id l, pt_tag_id l)) (photo_tags db))"




definition keys_ok :: "database \<Rightarrow> bool" where
  "keys_ok db =
     (distinct (map cat_id (robot_categories db)) \<and> distinct (map robot_id (robots db)))"

definition refs_ok :: "database \<Rightarrow> bool" where
  "refs_ok db =
     (list_all (\<lambda>r. r_category_id r \<in> set (map cat_id (robot_categories db))) (robots db)
      \<and> list_all (\<lambda>p. p_robot_id p \<in> set (map robot_id (robots db))) (photos db))"

text \<open>
  The row \<^verbatim>\<open>list_all_robots\<close> is expected to return for robot \<open>r\<close> of category \<open>c\<close>:
  the robot's columns, the category's name and the number of photos of the robot.
\<close>

definition robot_row_of :: "database \<Rightarrow> robot \<Rightarrow> category \<Rightarrow> robot_row" where
  "robot_row_of db r c =
     \<lparr>rr_robot_id = robot_id r, rr_manufacturer = manufacturer r,
      rr_model_name = model_name r, rr_robot_type = robot_type r,
      rr_year_released = year_released r, rr_category_name = cat_name c,
      rr_photo_count = length [p \<leftarrow> photos db. robot_id r = p_robot_id p]\<rparr>"

text \<open>
  Row \<open>a\<close> may stand before row \<open>b\<close> in a list ordered by category name, then
  manufacturer, then model name. Texts compare character by character, a character by
  its code, as SQLite's default collation does.
\<close>

definition ordered_before :: "robot_row \<Rightarrow> robot_row \<Rightarrow> bool" where
  "ordered_before a b =
     (rr_category_name a < rr_category_name b
      \<or> (rr_category_name a = rr_category_name b
          \<and> (rr_manufacturer a < rr_manufacturer b
              \<or> (rr_manufacturer a = rr_manufacturer b
                  \<and> rr_model_name a \<le> rr_model_name b))))"

text \<open>The rows of the join of \<^verbatim>\<open>list_all_robots\<close> that stem from one robot.\<close>

definition robot_block :: "database \<Rightarrow> robot \<Rightarrow> (robot \<times> category \<times> photo option) list" where
  "robot_block db r =
     concat (map (\<lambda>c. if r_category_id r = cat_id c
                        then map (\<lambda>p. (r, c, p))
                               (left_join [p \<leftarrow> photos db. robot_id r = p_robot_id p])
                        else [])
               (robot_categories db))"

text \<open>
  \<open>robot_in_category\<close>: the robot's category exists and has the name \<open>n\<close>.
  \<open>photos_in_category\<close>: the photos of the robots of the categories named \<open>n\<close>.
\<close>

definition robot_in_category :: "database \<Rightarrow> string \<Rightarrow> robot \<Rightarrow> bool" where
  "robot_in_category db n r =
     list_ex (\<lambda>c. cat_id c = r_category_id r \<and> cat_name c = n) (robot_categories db)"

definition photos_in_category :: "database \<Rightarrow> string \<Rightarrow> photo list" where
  "photos_in_category db n =
     [p \<leftarrow> photos db.
        list_ex (\<lambda>r. robot_id r = p_robot_id p \<and> robot_in_category db n r) (robots db)]"

text \<open>
  \<open>tags_ok\<close>: tag names are unique and no photo-tag link is stored twice. \<open>db_ok\<close>: all
  the constraints together.
\<close>

definition tags_ok :: "database \<Rightarrow> bool" where
  "tags_ok db = (distinct (map tag_name (tags db)) \<and> distinct (photo_tags db))"

definition db_ok :: "database \<Rightarrow> bool" where
  "db_ok db = (keys_ok db \<and> refs_ok db \<and> tags_ok db)"

section \<open>A sample catalogue\<close>

text \<open>
  Three categories, two robots, one photo with one tag; the source file of a further
  upload waits under \<^verbatim>\<open>/tmp\<close>.
\<close>

definition demo_db :: database where
  "demo_db =
     \<lparr>robot_categories =
        [\<lparr>cat_id = 1, cat_name = ''Drones''\<rparr>, \<lparr>cat_id = 2, cat_name = ''AMRs''\<rparr>,
         \<lparr>cat_id = 3, cat_name = ''Robotic Arms''\<rparr>],
      robots =
        [\<lparr>robot_id = 1, r_category_id = 1, manufacturer = ''DJI'', model_name = ''Mavic 3'',
          robot_type = ''quadcopter'', year_released = Some 2021, specifications = None\<rparr>,
         \<lparr>robot_id = 2, r_category_id = 2, manufacturer = ''Acme'', model_name = ''X1'',
          robot_type = ''tugger'', year_released = None, specifications = None\<rparr>],
      photos =
        [\<lparr>photo_id = 1, p_robot_id = 1, file_name = ''20240101_120000_front.jpg'',
          file_path = ''photo_storage/drones/20240101_120000_front.jpg'',
          upload_date = ''2024-01-01'', photo_type = ''general'', file_size_kb = 128,
          description = None, photographer = None\<rparr>],
      tags = [\<lparr>tag_id = 1, tag_name = ''aerial''\<rparr>],
      photo_tags = [\<lparr>pt_photo_id = 1, pt_tag_id = 1\<rparr>]\<rparr>"

definition demo_state :: db_state where
  "demo_state =
     \<lparr>photo_storage = ''photo_storage'', working = demo_db, committed = demo_db,
      history = [],
      files = [''/tmp/mavic.jpg'' \<mapsto> 204800],
      dirs = {''photo_storage'', ''photo_storage/drones'', ''photo_storage/amrs'',
              ''photo_storage/robotic_arms'', ''/tmp''}\<rparr>"

definition demo_clock :: clock where
  "demo_clock = \<lparr>timestamp = ''20240102_030405'', today = ''2024-01-02''\<rparr>"

section \<open>Properties\<close>

subsection \<open>Generated identifiers\<close>

lemma new_rowid_gt: "x \<in> set xs \<Longrightarrow> x < new_rowid xs"
proof (cases xs)
  case Nil
  then show "x \<in> set xs \<Longrightarrow> x < new_rowid xs" by simp
next
  case (Cons y ys)
  assume "x \<in> set xs"
  then have "x \<le> Max (set (y # ys))" using Cons by (intro Max_ge) auto
  also have "Max (set (y # ys)) = fold max ys y" by (rule Max.set_eq_fold)
  finally show "x < new_rowid xs" using Cons by simp
qed

lemma new_rowid_fresh: "new_rowid xs \<notin> set xs"
  using new_rowid_gt [of "new_rowid xs" xs] by auto

subsection \<open>Adding a robot\<close>

lemma select_category_id_empty:
  "select_category_id db cname = [] \<longleftrightarrow> cname \<notin> set (map cat_name (robot_categories db))"
  by (auto simp: select_category_id_def filter_empty_conv)

text \<open>
  C3. \<^verbatim>\<open>add_robot\<close> with a category name that no row of the categories table carries
  raises the lookup failure (\<^verbatim>\<open>ValueError\<close>, "Category ... not found") and leaves the
  whole state as it was, so no robot row is inserted. With a name that is present it
  returns an identifier no robot had before, appends exactly one robot row, which carries
  that identifier, the identifier of a category of that name and the values passed in,
  and commits it.
\<close>

theorem add_robot_resolves_category:
  "(cname \<notin> set (map cat_name (robot_categories (working s))) \<longrightarrow>
      add_robot s cname manuf model rtype yr specs =
        (Inl (ValueError (''Category '' @ quoted cname @ '' not found'')), s))
   \<and> (cname \<in> set (map cat_name (robot_categories (working s))) \<longrightarrow>
      (\<exists>rid cid s'.
         add_robot s cname manuf model rtype yr specs = (Inr rid, s')
         \<and> rid \<notin> set (map robot_id (robots (working s)))
         \<and> \<lparr>cat_id = cid, cat_name = cname\<rparr> \<in> set (robot_categories (working s))
         \<and> robots (working s') =
             robots (working s) @
               [\<lparr>robot_id = rid, r_category_id = cid, manufacturer = manuf,
                 model_name = model, robot_type = rtype, year_released = yr,
                 specifications = specs\<rparr>]
         \<and> committed s' = working s'))"
proof (intro conjI impI)
  assume "cname \<notin> set (map cat_name (robot_categories (working s)))"
  then have "select_category_id (working s) cname = []"
    by (simp add: select_category_id_empty)
  then show "add_robot s cname manuf model rtype yr specs =
        (Inl (ValueError (''Category '' @ quoted cname @ '' not found'')), s)"
    by (simp add: add_robot_def)
next
  assume "cname \<in> set (map cat_name (robot_categories (working s)))"
  then have "select_category_id (working s) cname \<noteq> []"
    by (simp add: select_category_id_empty)
  then obtain cid rest where sel: "select_category_id (working s) cname = cid # rest"
    by (cases "select_category_id (working s) cname") auto
  then have "cid \<in> set (select_category_id (working s) cname)" by simp
  then obtain c where c: "c \<in> set (robot_categories (working s))" "cat_name c = cname" "cat_id c = cid"
    by (auto simp: select_category_id_def)
  have "c = \<lparr>cat_id = cid, cat_name = cname\<rparr>"
    using c(2,3) by (cases c) simp
  with c(1) have mem: "\<lparr>cat_id = cid, cat_name = cname\<rparr> \<in> set (robot_categories (working s))"
    by simp
  let ?rid = "new_rowid (map robot_id (robots (working s)))"
  have fresh: "?rid \<notin> set (map robot_id (robots (working s)))"
    by (rule new_rowid_fresh)
  show "\<exists>rid cid s'.
         add_robot s cname manuf model rtype yr specs = (Inr rid, s')
         \<and> rid \<notin> set (map robot_id (robots (working s)))
         \<and> \<lparr>cat_id = cid, cat_name = cname\<rparr> \<in> set (robot_categories (working s))
         \<and> robots (working s') =
             robots (working s) @
               [\<lparr>robot_id = rid, r_category_id = cid, manufacturer = manuf,
                 model_name = model, robot_type = rtype, year_released = yr,
                 specifications = specs\<rparr>]
         \<and> committed s' = working s'"
    using sel mem fresh
    by (simp add: add_robot_def insert_robot_def commit_def Let_def)
qed

theorem add_robot_resolves_category_witness:
  "add_robot demo_state ''Humanoids'' ''Acme'' ''H1'' ''biped'' None None =
     (Inl (ValueError (''Category '' @ quoted ''Humanoids'' @ '' not found'')), demo_state)
   \<and> (\<exists>rid cid s'.
         add_robot demo_state ''AMRs'' ''Acme'' ''X2'' ''tugger'' (Some 2024) None = (Inr rid, s')
         \<and> rid \<notin> set (map robot_id (robots (working demo_state)))
         \<and> \<lparr>cat_id = cid, cat_name = ''AMRs''\<rparr> \<in> set (robot_categories (working demo_state))
         \<and> robots (working s') =
             robots (working demo_state) @
               [\<lparr>robot_id = rid, r_category_id = cid, manufacturer = ''Acme'',
                 model_name = ''X2'', robot_type = ''tugger'', year_released = Some 2024,
                 specifications = None\<rparr>]
         \<and> committed s' = working s')"
proof -
  have a: "''Humanoids'' \<notin> set (map cat_name (robot_categories (working demo_state)))"
    by (simp add: demo_state_def demo_db_def)
  have b: "''AMRs'' \<in> set (map cat_name (robot_categories (working demo_state)))"
    by (simp add: demo_state_def demo_db_def)
  from a add_robot_resolves_category [of "''Humanoids''" demo_state "''Acme''" "''H1''" "''biped''" None None]
  have 1: "add_robot demo_state ''Humanoids'' ''Acme'' ''H1'' ''biped'' None None =
     (Inl (ValueError (''Category '' @ quoted ''Humanoids'' @ '' not found'')), demo_state)"
    by blast
  from b add_robot_resolves_category [of "''AMRs''" demo_state "''Acme''" "''X2''" "''tugger''" "Some 2024" None]
  show ?thesis using 1 by blast
qed

subsection \<open>Failures of adding a photo\<close>

lemma select_robot_category_empty:
  "rid \<notin> set (map robot_id (robots db)) \<Longrightarrow> select_robot_category db rid = []"
  by (induction "robots db" arbitrary: db) (auto simp: select_robot_category_def)

text \<open>
  C4, as the code has it. \<^verbatim>\<open>add_photo\<close> for an identifier that no robot carries, called
  with a source path that exists, raises and leaves the whole state as it was: the file
  system is untouched, so nothing was copied into the photo storage, and no photo row is
  inserted. The exception is the lookup failure (\<^verbatim>\<open>ValueError\<close>, "Robot with ID ... not
  found") when the identifier is an integer SQLite can hold, and the \<^verbatim>\<open>OverflowError\<close> of
  the parameter binding otherwise.
\<close>

theorem add_photo_unknown_robot:
  assumes "rid \<notin> set (map robot_id (robots (working s)))"
    and "path_exists s source_file"
  shows "add_photo s clk rid source_file ptype descr tgs phot =
           (Inl (if sqlite_integer rid
                 then ValueError (''Robot with ID '' @ str_int rid @ '' not found'')
                 else OverflowError ''Python int too large to convert to SQLite INTEGER''),
            s)"
  using assms by (simp add: add_photo_def select_robot_category_empty)

theorem add_photo_unknown_robot_witness:
  "sqlite_integer 7
   \<and> add_photo demo_state demo_clock 7 ''/tmp/mavic.jpg'' ''general'' None (Some [''aerial'']) None =
       (Inl (ValueError (''Robot with ID '' @ str_int 7 @ '' not found'')), demo_state)"
proof -
  have a: "7 \<notin> set (map robot_id (robots (working demo_state)))"
    by (simp add: demo_state_def demo_db_def)
  have b: "path_exists demo_state ''/tmp/mavic.jpg''"
    by (simp add: path_exists_def demo_state_def)
  have c: "sqlite_integer 7" by (simp add: sqlite_integer_def)
  from add_photo_unknown_robot [OF a b, of demo_clock "''general''" None "Some [''aerial'']" None] c
  show ?thesis by simp
qed

text \<open>
  The claim C4 as it is written fails: the identifier \<open>2 ^ 63\<close>, which no robot carries,
  passed with a source file that exists, makes \<^verbatim>\<open>add_photo\<close> raise \<^verbatim>\<open>OverflowError\<close>, not the
  lookup failure.
\<close>

theorem add_photo_unknown_robot_counterexample:
  "9223372036854775808 \<notin> set (map robot_id (robots (working demo_state)))
   \<and> path_exists demo_state ''/tmp/mavic.jpg''
   \<and> add_photo demo_state demo_clock 9223372036854775808 ''/tmp/mavic.jpg'' ''general'' None
         None None =
       (Inl (OverflowError ''Python int too large to convert to SQLite INTEGER''), demo_state)"
  by (simp add: add_photo_def path_exists_def sqlite_integer_def demo_state_def demo_db_def)

text \<open>
  C5. \<^verbatim>\<open>add_photo\<close> for a source path that does not exist raises
  \<^verbatim>\<open>FileNotFoundError\<close> and leaves the whole state as it was: neither the connection's
  view of the database nor the durable database gains a photo, a tag or a link.
\<close>

theorem add_photo_missing_source:
  assumes "\<not> path_exists s source_file"
  shows "add_photo s clk rid source_file ptype descr tgs phot =
           (Inl (FileNotFoundError (''Source file not found: '' @ source_file)), s)"
  using assms by (simp add: add_photo_def)



theorem add_photo_missing_source_witness:
  "add_photo demo_state demo_clock 1 ''/tmp/absent.jpg'' ''general'' None (Some [''aerial'']) None =
     (Inl (FileNotFoundError (''Source file not found: '' @ ''/tmp/absent.jpg'')), demo_state)"
proof -
  have a: "\<not> path_exists demo_state ''/tmp/absent.jpg''"
    by (simp add: path_exists_def demo_state_def)
  show ?thesis by (rule add_photo_missing_source [OF a])
qed


subsection \<open>Adding a tag\<close>

lemma filter_key_single:
  "distinct (map f xs) \<Longrightarrow> x \<in> set xs \<Longrightarrow> [y \<leftarrow> xs. f y = f x] = [x]"
proof (induction xs)
  case Nil
  then show ?case by simp
next
  case (Cons a xs)
  show ?case
  proof (cases "a = x")
    case True
    with Cons.prems have "\<forall>y \<in> set xs. f y \<noteq> f x" by (force simp: image_iff)
    then have "[y \<leftarrow> xs. f y = f x] = []" by (simp add: filter_empty_conv)
    with True show ?thesis by simp
  next
    case False
    with Cons.prems have "x \<in> set xs" "f a \<noteq> f x" by auto
    with Cons show ?thesis by simp
  qed
qed

lemma concat_map_if:
  "concat (map (\<lambda>x. if P x then [f x] else []) xs) = map f (filter P xs)"
  by (induction xs) simp_all

lemma select_tag_id_filter:
  "select_tag_id db name = map tag_id [t \<leftarrow> tags db. tag_name t = name]"
  by (simp add: select_tag_id_def concat_map_if)

lemma tags_after_insert:
  "name \<in> set (map tag_name (tags (insert_or_ignore_tag db name)))"
  by (simp add: insert_or_ignore_tag_def)

lemma distinct_after_insert_tag:
  "distinct (map tag_name (tags db)) \<Longrightarrow>
   distinct (map tag_name (tags (insert_or_ignore_tag db name)))"
  by (simp add: insert_or_ignore_tag_def)

lemma insert_tag_again:
  "name \<in> set (map tag_name (tags db)) \<Longrightarrow> insert_or_ignore_tag db name = db"
  by (simp add: insert_or_ignore_tag_def)

lemma insert_tag_other_tables:
  "photo_tags (insert_or_ignore_tag db name) = photo_tags db"
  "photos (insert_or_ignore_tag db name) = photos db"
  "robots (insert_or_ignore_tag db name) = robots db"
  "robot_categories (insert_or_ignore_tag db name) = robot_categories db"
  by (simp_all add: insert_or_ignore_tag_def)

lemma insert_link_tables:
  "tags (insert_or_ignore_photo_tag db pid tid) = tags db"
  "photos (insert_or_ignore_photo_tag db pid tid) = photos db"
  "robots (insert_or_ignore_photo_tag db pid tid) = robots db"
  "robot_categories (insert_or_ignore_photo_tag db pid tid) = robot_categories db"
  by (simp_all add: insert_or_ignore_photo_tag_def)

lemma link_after_insert:
  "\<lparr>pt_photo_id = pid, pt_tag_id = tid\<rparr> \<in> set (photo_tags (insert_or_ignore_photo_tag db pid tid))"
  by (simp add: insert_or_ignore_photo_tag_def)

lemma distinct_after_insert_link:
  "distinct (photo_tags db) \<Longrightarrow> distinct (photo_tags (insert_or_ignore_photo_tag db pid tid))"
  by (simp add: insert_or_ignore_photo_tag_def)

lemma insert_link_again:
  "\<lparr>pt_photo_id = pid, pt_tag_id = tid\<rparr> \<in> set (photo_tags db) \<Longrightarrow>
   insert_or_ignore_photo_tag db pid tid = db"
  by (simp add: insert_or_ignore_photo_tag_def)

lemma select_tag_id_single:
  assumes "distinct (map tag_name (tags db))" and "name \<in> set (map tag_name (tags db))"
  shows "\<exists>tid. select_tag_id db name = [tid]
           \<and> [t \<leftarrow> tags db. tag_name t = name] = [\<lparr>tag_id = tid, tag_name = name\<rparr>]"
proof -
  from assms(2) obtain t where t: "t \<in> set (tags db)" "tag_name t = name" by auto
  have "[y \<leftarrow> tags db. tag_name y = tag_name t] = [t]"
    using assms(1) t(1) by (rule filter_key_single)
  then have f: "[y \<leftarrow> tags db. tag_name y = name] = [t]" using t(2) by simp
  have "t = \<lparr>tag_id = tag_id t, tag_name = name\<rparr>" using t(2) by (cases t) simp
  with f have "[y \<leftarrow> tags db. tag_name y = name] = [\<lparr>tag_id = tag_id t, tag_name = name\<rparr>]"
    by simp
  moreover have "select_tag_id db name = [tag_id t]"
    using f by (simp add: select_tag_id_filter)
  ultimately show ?thesis by blast
qed

text \<open>
  C6. In a database whose tag names and whose photo-tag links are unique, calling
  \<^verbatim>\<open>add_tag_to_photo\<close> twice with the same photo and tag name succeeds both times, the
  second call leaves the connection's view and the durable database as the first call
  left them, and afterwards the tags table holds exactly one row of that name and the
  link table exactly one row for the photo and that tag.
\<close>

theorem add_tag_to_photo_idempotent:
  assumes "distinct (map tag_name (tags (working s)))"
    and "distinct (photo_tags (working s))"
  shows "\<exists>s1 s2 tid.
           add_tag_to_photo s pid name = (Inr (), s1)
         \<and> add_tag_to_photo s1 pid name = (Inr (), s2)
         \<and> working s2 = working s1 \<and> committed s2 = committed s1
         \<and> committed s2 = working s2
         \<and> [t \<leftarrow> tags (working s2). tag_name t = name] = [\<lparr>tag_id = tid, tag_name = name\<rparr>]
         \<and> [l \<leftarrow> photo_tags (working s2). l = \<lparr>pt_photo_id = pid, pt_tag_id = tid\<rparr>]
             = [\<lparr>pt_photo_id = pid, pt_tag_id = tid\<rparr>]"
proof -
  let ?w1 = "insert_or_ignore_tag (working s) name"
  have d1: "distinct (map tag_name (tags ?w1))"
    using assms(1) by (rule distinct_after_insert_tag)
  have m1: "name \<in> set (map tag_name (tags ?w1))" by (rule tags_after_insert)
  from select_tag_id_single [OF d1 m1] obtain tid where
    sel: "select_tag_id ?w1 name = [tid]" and
    one: "[t \<leftarrow> tags ?w1. tag_name t = name] = [\<lparr>tag_id = tid, tag_name = name\<rparr>]"
    by blast
  let ?w2 = "insert_or_ignore_photo_tag ?w1 pid tid"
  let ?s1 = "commit (s\<lparr>working := ?w2\<rparr>)"
  have first: "add_tag_to_photo s pid name = (Inr (), ?s1)"
    using sel by (simp add: add_tag_to_photo_def Let_def)
  have w_s1: "working ?s1 = ?w2" "committed ?s1 = ?w2" by (simp_all add: commit_def)
  have m2: "name \<in> set (map tag_name (tags ?w2))"
    using m1 by (simp only: insert_link_tables)
  have again_tag: "insert_or_ignore_tag ?w2 name = ?w2"
    using m2 by (rule insert_tag_again)
  have sel2: "select_tag_id ?w2 name = [tid]"
    using sel by (simp add: select_tag_id_filter insert_link_tables)
  have again_link: "insert_or_ignore_photo_tag ?w2 pid tid = ?w2"
    by (rule insert_link_again) (rule link_after_insert)
  let ?s2 = "commit (?s1\<lparr>working := ?w2\<rparr>)"
  have second: "add_tag_to_photo ?s1 pid name = (Inr (), ?s2)"
    using sel2 again_tag again_link w_s1 by (simp add: add_tag_to_photo_def Let_def)
  have w_s2: "working ?s2 = ?w2" "committed ?s2 = ?w2" by (simp_all add: commit_def)
  have one2: "[t \<leftarrow> tags ?w2. tag_name t = name] = [\<lparr>tag_id = tid, tag_name = name\<rparr>]"
    using one by (simp only: insert_link_tables)
  have d2: "distinct (photo_tags ?w2)"
    using assms(2) by (intro distinct_after_insert_link) (simp add: insert_tag_other_tables)
  have "[l \<leftarrow> photo_tags ?w2. id l = id \<lparr>pt_photo_id = pid, pt_tag_id = tid\<rparr>]
          = [\<lparr>pt_photo_id = pid, pt_tag_id = tid\<rparr>]"
    by (rule filter_key_single) (use d2 in simp, rule link_after_insert)
  then have link1: "[l \<leftarrow> photo_tags ?w2. l = \<lparr>pt_photo_id = pid, pt_tag_id = tid\<rparr>]
          = [\<lparr>pt_photo_id = pid, pt_tag_id = tid\<rparr>]"
    by simp
  show ?thesis
    using first second w_s1 w_s2 one2 link1 by (intro exI [of _ ?s1] exI [of _ ?s2] exI [of _ tid]) simp
qed

theorem add_tag_to_photo_idempotent_witness:
  "distinct (map tag_name (tags (working demo_state)))
   \<and> distinct (photo_tags (working demo_state))
   \<and> (\<exists>s1 s2 tid.
           add_tag_to_photo demo_state 1 ''4k'' = (Inr (), s1)
         \<and> add_tag_to_photo s1 1 ''4k'' = (Inr (), s2)
         \<and> working s2 = working s1 \<and> committed s2 = committed s1
         \<and> committed s2 = working s2
         \<and> [t \<leftarrow> tags (working s2). tag_name t = ''4k''] = [\<lparr>tag_id = tid, tag_name = ''4k''\<rparr>]
         \<and> [l \<leftarrow> photo_tags (working s2). l = \<lparr>pt_photo_id = 1, pt_tag_id = tid\<rparr>]
             = [\<lparr>pt_photo_id = 1, pt_tag_id = tid\<rparr>])"
proof -
  have a: "distinct (map tag_name (tags (working demo_state)))"
    by (simp add: demo_state_def demo_db_def)
  have b: "distinct (photo_tags (working demo_state))"
    by (simp add: demo_state_def demo_db_def)
  show ?thesis
    using a b add_tag_to_photo_idempotent [OF a b, of 1 "''4k''"] by blast
qed

subsection \<open>The commits of adding a photo\<close>

lemma demo_state_fields:
  "photo_storage demo_state = ''photo_storage''"
  "working demo_state = demo_db"
  "committed demo_state = demo_db"
  "history demo_state = []"
  "files demo_state = [''/tmp/mavic.jpg'' \<mapsto> 204800]"
  "dirs demo_state = {''photo_storage'', ''photo_storage/drones'', ''photo_storage/amrs'',
                      ''photo_storage/robotic_arms'', ''/tmp''}"
  by (simp_all add: demo_state_def)

lemma demo_db_tables:
  "map photo_id (photos demo_db) = [1]"
  "tags demo_db = [\<lparr>tag_id = 1, tag_name = ''aerial''\<rparr>]"
  "photo_tags demo_db = [\<lparr>pt_photo_id = 1, pt_tag_id = 1\<rparr>]"
  by (simp_all add: demo_db_def)

lemma demo_sel: "select_robot_category demo_db 1 = [''Drones'']"
  by (simp add: select_robot_category_def demo_db_def)

text \<open>
  C1. \<^verbatim>\<open>add_photo\<close> on the sample catalogue with the tags \<^verbatim>\<open>4k\<close> and \<^verbatim>\<open>night\<close>
  returns the new photo's identifier 2, and between its start and its end the durable
  database takes four values, here newest first: the final one twice (the commit of the
  second tag and the closing commit of \<^verbatim>\<open>add_photo\<close>), before that one that holds
  the new photo and the tag \<^verbatim>\<open>4k\<close> but neither the tag \<^verbatim>\<open>night\<close> nor its link, and
  the initial one. The writes of the call are therefore not committed as one unit.
  The same call without tags commits once: the durable database goes from the initial
  value straight to the final one.
\<close>

theorem add_photo_commits_per_tag:
  "fst (add_photo demo_state demo_clock 1 ''/tmp/mavic.jpg'' ''general'' None
          (Some [''4k'', ''night'']) None) = Inr 2
   \<and> map table_summary
        (durable_during demo_state
           (snd (add_photo demo_state demo_clock 1 ''/tmp/mavic.jpg'' ''general'' None
                   (Some [''4k'', ''night'']) None))) =
       [([1, 2], [''aerial'', ''4k'', ''night''], [(1, 1), (2, 2), (2, 3)]),
        ([1, 2], [''aerial'', ''4k'', ''night''], [(1, 1), (2, 2), (2, 3)]),
        ([1, 2], [''aerial'', ''4k''], [(1, 1), (2, 2)]),
        ([1], [''aerial''], [(1, 1)])]
   \<and> map table_summary
        (durable_during demo_state
           (snd (add_photo demo_state demo_clock 1 ''/tmp/mavic.jpg'' ''general'' None
                   None None))) =
       [([1, 2], [''aerial''], [(1, 1)]), ([1], [''aerial''], [(1, 1)])]"
  by (simp add: add_photo_def path_exists_def sqlite_integer_def demo_state_fields demo_sel
      copy2_def st_size_def
      path_parent_def path_name_def path_join_def replace_char_def lower_char_def
      insert_photo_def supplied_def add_tag_to_photo_def insert_or_ignore_tag_def
      insert_or_ignore_photo_tag_def select_tag_id_def commit_def durable_during_def
      table_summary_def demo_db_tables demo_clock_def Let_def)

subsection \<open>The text filters of the search\<close>











subsection \<open>The unfiltered search and the category filter\<close>

lemma concat_key_hit:
  "distinct (map f xs) \<Longrightarrow> x \<in> set xs \<Longrightarrow>
   concat (map (\<lambda>y. if f x = f y then g y else []) xs) = g x"
proof (induction xs)
  case Nil
  then show ?case by simp
next
  case (Cons a xs)
  show ?case
  proof (cases "a = x")
    case True
    with Cons.prems have "\<forall>y \<in> set xs. f x \<noteq> f y" by (force simp: image_iff)
    then have "concat (map (\<lambda>y. if f x = f y then g y else []) xs) = []" by simp
    with True show ?thesis by simp
  next
    case False
    with Cons.prems have "x \<in> set xs" by auto
    moreover have "f x \<noteq> f a"
    proof
      assume "f x = f a"
      with \<open>x \<in> set xs\<close> have "f a \<in> f ` set xs" by (simp add: rev_image_eqI)
      with Cons.prems(1) show False by simp
    qed
    ultimately show ?thesis using Cons by simp
  qed
qed


lemma length_concat_filter:
  "(\<And>x. x \<in> set xs \<Longrightarrow> length (f x) = (if P x then 1 else 0)) \<Longrightarrow>
   length (concat (map f xs)) = length (filter P xs)"
  by (induction xs) auto










lemma demo_db_ok: "keys_ok demo_db" "refs_ok demo_db"
  by (simp_all add: keys_ok_def refs_ok_def demo_db_def)



subsection \<open>The storage total of the statistics\<close>

lemma or_zero_sum:
  "or_zero (select_sum_file_size db) = sum_list (map file_size_kb (photos db))"
  by (simp add: or_zero_def select_sum_file_size_def)

lemma round_half_even_near: "\<bar>of_int (round_half_even q) - q\<bar> \<le> 1 / 2"
proof -
  have f: "of_int \<lfloor>q\<rfloor> \<le> q" "q < of_int \<lfloor>q\<rfloor> + 1" by linarith+
  show ?thesis
    unfolding round_half_even_def Let_def using f by (auto simp: abs_le_iff)
qed

lemma py_round2_near: "\<bar>py_round2 q - q\<bar> \<le> 1 / 200"
proof -
  have "\<bar>of_int (round_half_even (q * 100)) - q * 100\<bar> \<le> 1 / 2"
    by (rule round_half_even_near)
  then have "\<bar>of_int (round_half_even (q * 100)) / 100 - q\<bar> \<le> 1 / 200"
    by (simp add: abs_le_iff field_simps)
  then show ?thesis by (simp only: py_round2_def)
qed

lemma py_round2_zero: "py_round2 0 = 0"
  by (simp add: py_round2_def round_half_even_def)

text \<open>
  C10. \<^verbatim>\<open>get_statistics\<close> reports as \<^verbatim>\<open>total_storage_mb\<close> the sum of all recorded
  \<^verbatim>\<open>file_size_kb\<close> divided by 1024 and rounded to two decimal places: the value is a
  whole number of hundredths and lies within half a hundredth of the exact quotient.
  Over an empty photo table the SQL sum is NULL, the code replaces it by 0, and the total
  is 0; over a non-empty table the sum is not NULL.
\<close>

theorem get_statistics_total_storage:
  "total_storage_mb (get_statistics s) =
     py_round2 (of_int (sum_list (map file_size_kb (photos (working s)))) / 1024)
   \<and> (\<exists>n :: int. total_storage_mb (get_statistics s) = of_int n / 100)
   \<and> \<bar>total_storage_mb (get_statistics s)
        - of_int (sum_list (map file_size_kb (photos (working s)))) / 1024\<bar> \<le> 1 / 200
   \<and> (if photos (working s) = []
       then select_sum_file_size (working s) = None \<and> total_storage_mb (get_statistics s) = 0
       else select_sum_file_size (working s) \<noteq> None)"
proof -
  have eq: "total_storage_mb (get_statistics s) =
     py_round2 (of_int (sum_list (map file_size_kb (photos (working s)))) / 1024)"
    by (simp add: get_statistics_def Let_def or_zero_sum)
  have dec: "\<exists>n :: int. total_storage_mb (get_statistics s) = of_int n / 100"
    unfolding eq py_round2_def by blast
  have near: "\<bar>total_storage_mb (get_statistics s)
        - of_int (sum_list (map file_size_kb (photos (working s)))) / 1024\<bar> \<le> 1 / 200"
    unfolding eq by (rule py_round2_near)
  have empty: "if photos (working s) = []
       then select_sum_file_size (working s) = None \<and> total_storage_mb (get_statistics s) = 0
       else select_sum_file_size (working s) \<noteq> None"
    unfolding eq by (simp add: select_sum_file_size_def py_round2_zero)
  from eq dec near empty show ?thesis by blast
qed

theorem get_statistics_total_storage_witness:
  "total_storage_mb (get_statistics demo_state) = 12 / 100
   \<and> total_storage_mb (get_statistics (demo_state\<lparr>working := demo_db\<lparr>photos := []\<rparr>\<rparr>)) = 0"
proof -
  have a: "sum_list (map file_size_kb (photos (working demo_state))) = 128"
    by (simp add: demo_state_fields demo_db_def)
  have f: "\<lfloor>25 / 2 :: rat\<rfloor> = 12"
    by (rule floor_unique) simp_all
  have r: "py_round2 (128 / 1024) = 12 / 100"
    by (simp add: py_round2_def round_half_even_def f)
  have b: "photos (working (demo_state\<lparr>working := demo_db\<lparr>photos := []\<rparr>\<rparr>)) = []"
    by simp
  from get_statistics_total_storage [of demo_state]
  have 1: "total_storage_mb (get_statistics demo_state) = 12 / 100"
    using a r by simp
  from get_statistics_total_storage [of "demo_state\<lparr>working := demo_db\<lparr>photos := []\<rparr>\<rparr>"] b
  have 2: "total_storage_mb (get_statistics (demo_state\<lparr>working := demo_db\<lparr>photos := []\<rparr>\<rparr>)) = 0"
    by simp
  from 1 2 show ?thesis by simp
qed

subsection \<open>The photo counts by category\<close>

lemma sum_list_if_const:
  "sum_list (map (\<lambda>c. if Q c then (n::nat) else 0) cs) = n * length (filter Q cs)"
  by (induction cs) simp_all

lemma count_distinct:
  "distinct ks \<Longrightarrow> k \<in> set ks \<Longrightarrow> length [j \<leftarrow> ks. k = j] = 1"
  by (induction ks) (auto simp: filter_empty_conv)

lemma group_sum:
  assumes "distinct ks" and "set (map f xs) \<subseteq> set ks"
  shows "sum_list (map (\<lambda>k. length [x \<leftarrow> xs. f x = k \<and> P x]) ks) = length (filter P xs)"
  using assms(2)
proof (induction xs)
  case Nil
  then show ?case by simp
next
  case (Cons x xs)
  then have in_ks: "f x \<in> set ks" and rest: "set (map f xs) \<subseteq> set ks" by simp_all
  have split: "\<And>k. length [y \<leftarrow> x # xs. f y = k \<and> P y]
                 = (if f x = k then (if P x then 1 else 0) else 0)
                   + length [y \<leftarrow> xs. f y = k \<and> P y]"
    by simp
  have one: "sum_list (map (\<lambda>k. if f x = k then (if P x then 1 else 0) else 0) ks)
               = (if P x then 1 else (0::nat))"
    unfolding sum_list_if_const count_distinct [OF assms(1) in_ks] by simp
  have "sum_list (map (\<lambda>k. length [y \<leftarrow> x # xs. f y = k \<and> P y]) ks)
          = sum_list (map (\<lambda>k. if f x = k then (if P x then 1 else 0) else 0) ks)
            + sum_list (map (\<lambda>k. length [y \<leftarrow> xs. f y = k \<and> P y]) ks)"
    unfolding split by (rule sum_list_addf)
  also have "\<dots> = (if P x then 1 else 0) + length (filter P xs)"
    unfolding one using Cons.IH [OF rest] by simp
  finally show ?case by simp
qed

lemma sum_swap:
  "sum_list (map (\<lambda>c. sum_list (map g [r \<leftarrow> rs. Q c r])) cs)
     = sum_list (map (\<lambda>r. (g r :: nat) * length [c \<leftarrow> cs. Q c r]) rs)"
proof (induction rs)
  case Nil
  then show ?case by simp
next
  case (Cons r rs)
  have split: "\<And>c. sum_list (map g [y \<leftarrow> r # rs. Q c y])
                 = (if Q c r then g r else 0) + sum_list (map g [y \<leftarrow> rs. Q c y])"
    by simp
  have "sum_list (map (\<lambda>c. sum_list (map g [y \<leftarrow> r # rs. Q c y])) cs)
          = sum_list (map (\<lambda>c. if Q c r then g r else 0) cs)
            + sum_list (map (\<lambda>c. sum_list (map g [y \<leftarrow> rs. Q c y])) cs)"
    unfolding split by (rule sum_list_addf)
  also have "\<dots> = g r * length [c \<leftarrow> cs. Q c r]
                    + sum_list (map (\<lambda>r. g r * length [c \<leftarrow> cs. Q c r]) rs)"
    unfolding sum_list_if_const Cons.IH ..
  finally show ?case by simp
qed

lemma left_join_nonempty: "left_join xs \<noteq> []"
  by (cases xs) simp_all

lemma has_photo_left_join:
  "length [x \<leftarrow> map (\<lambda>p. (c, r, p)) (left_join ps). snd (snd x) \<noteq> None] = length ps"
  by (cases ps) (simp_all add: filter_map comp_def)

lemma count_filter_concat:
  "length (filter P (concat (map f xs))) = sum_list (map (\<lambda>x. length (filter P (f x))) xs)"
  by (induction xs) simp_all

lemma category_rows_count:
  "length [x \<leftarrow> concat (map (\<lambda>r. map (\<lambda>p. (c, r, p))
                 (case r of None \<Rightarrow> [None] | Some r' \<Rightarrow> left_join (ps r'))) (left_join rs)).
             snd (snd x) \<noteq> None]
     = sum_list (map (\<lambda>r. length (ps r)) rs)"
proof (cases rs)
  case Nil
  then show ?thesis by simp
next
  case (Cons a as)
  then have "left_join rs = map Some rs" by simp
  then show ?thesis
    by (simp only: count_filter_concat map_map comp_def option.case has_photo_left_join)
qed

lemma category_join_count:
  "length [x \<leftarrow> category_join db. snd (snd x) \<noteq> None]
     = sum_list (map (\<lambda>c. sum_list (map (\<lambda>r. length [p \<leftarrow> photos db. robot_id r = p_robot_id p])
                                  [r \<leftarrow> robots db. cat_id c = r_category_id r]))
                 (robot_categories db))"
proof -
  have shape: "category_join db =
      concat (map (\<lambda>c. concat (map (\<lambda>r. map (\<lambda>p. (c, r, p))
                 (case r of None \<Rightarrow> [None]
                  | Some r' \<Rightarrow> left_join [p \<leftarrow> photos db. robot_id r' = p_robot_id p]))
              (left_join [r \<leftarrow> robots db. cat_id c = r_category_id r])))
        (robot_categories db))"
    by (simp add: category_join_def)
  have "length [x \<leftarrow> category_join db. snd (snd x) \<noteq> None]
          = sum_list (map (\<lambda>c. length [x \<leftarrow> concat (map (\<lambda>r. map (\<lambda>p. (c, r, p))
                 (case r of None \<Rightarrow> [None]
                  | Some r' \<Rightarrow> left_join [p \<leftarrow> photos db. robot_id r' = p_robot_id p]))
              (left_join [r \<leftarrow> robots db. cat_id c = r_category_id r])).
                snd (snd x) \<noteq> None])
        (robot_categories db))"
    unfolding shape by (rule count_filter_concat)
  also have "\<dots> = sum_list (map (\<lambda>c. sum_list (map (\<lambda>r. length [p \<leftarrow> photos db. robot_id r = p_robot_id p])
                                  [r \<leftarrow> robots db. cat_id c = r_category_id r]))
                 (robot_categories db))"
    by (simp only: category_rows_count)
  finally show ?thesis .
qed

lemma one_category:
  assumes "keys_ok db" and "refs_ok db" and "r \<in> set (robots db)"
  shows "length [c \<leftarrow> robot_categories db. cat_id c = r_category_id r] = 1"
proof -
  from assms(2,3) have "r_category_id r \<in> set (map cat_id (robot_categories db))"
    by (simp add: refs_ok_def list_all_iff)
  then obtain c where c: "c \<in> set (robot_categories db)" "cat_id c = r_category_id r" by auto
  from assms(1) have "distinct (map cat_id (robot_categories db))" by (simp add: keys_ok_def)
  then have "[y \<leftarrow> robot_categories db. cat_id y = cat_id c] = [c]"
    using c(1) by (rule filter_key_single)
  then show ?thesis unfolding c(2) by simp
qed

lemma one_robot:
  assumes "keys_ok db" and "refs_ok db" and "p \<in> set (photos db)"
  shows "length [r \<leftarrow> robots db. robot_id r = p_robot_id p] = 1"
proof -
  from assms(2,3) have "p_robot_id p \<in> set (map robot_id (robots db))"
    by (simp add: refs_ok_def list_all_iff)
  then obtain r where r: "r \<in> set (robots db)" "robot_id r = p_robot_id p" by auto
  from assms(1) have "distinct (map robot_id (robots db))" by (simp add: keys_ok_def)
  then have "[y \<leftarrow> robots db. robot_id y = robot_id r] = [r]"
    using r(1) by (rule filter_key_single)
  then show ?thesis unfolding r(2) by simp
qed

lemma sum_list_ones: "sum_list (map (\<lambda>x. 1::nat) xs) = length xs"
  by (induction xs) simp_all

lemma category_join_photos:
  assumes "keys_ok db" and "refs_ok db"
  shows "length [x \<leftarrow> category_join db. snd (snd x) \<noteq> None] = length (photos db)"
proof -
  let ?cnt = "\<lambda>r. length [p \<leftarrow> photos db. robot_id r = p_robot_id p]"
  have "length [x \<leftarrow> category_join db. snd (snd x) \<noteq> None]
          = sum_list (map (\<lambda>c. sum_list (map ?cnt [r \<leftarrow> robots db. cat_id c = r_category_id r]))
                       (robot_categories db))"
    by (rule category_join_count)
  also have "\<dots> = sum_list (map (\<lambda>r. ?cnt r * length [c \<leftarrow> robot_categories db.
                                                          cat_id c = r_category_id r])
                            (robots db))"
    by (rule sum_swap)
  also have "\<dots> = sum_list (map ?cnt (robots db))"
    by (rule arg_cong [where f = sum_list], rule map_cong [OF refl])
       (simp add: one_category [OF assms])
  also have "\<dots> = sum_list (map (\<lambda>r. sum_list (map (\<lambda>p. 1::nat)
                                         [p \<leftarrow> photos db. robot_id r = p_robot_id p]))
                            (robots db))"
    by (simp only: sum_list_ones)
  also have "\<dots> = sum_list (map (\<lambda>p. 1 * length [r \<leftarrow> robots db. robot_id r = p_robot_id p])
                            (photos db))"
    by (rule sum_swap)
  also have "\<dots> = sum_list (map (\<lambda>p. 1::nat) (photos db))"
    by (rule arg_cong [where f = sum_list], rule map_cong [OF refl])
       (simp add: one_robot [OF assms])
  also have "\<dots> = length (photos db)" by (rule sum_list_ones)
  finally show ?thesis .
qed

lemma category_join_names:
  "set (map (\<lambda>x. cat_name (fst x)) (category_join db)) = set (map cat_name (robot_categories db))"
proof -
  have inner: "\<And>r. (case r of None \<Rightarrow> [None]
                 | Some r' \<Rightarrow> left_join [p \<leftarrow> photos db. robot_id r' = p_robot_id p]) \<noteq> []"
    by (simp add: left_join_nonempty split: option.split)
  have "set (map fst (category_join db)) = set (robot_categories db)"
  proof
    show "set (map fst (category_join db)) \<subseteq> set (robot_categories db)"
      by (auto simp: category_join_def)
    show "set (robot_categories db) \<subseteq> set (map fst (category_join db))"
    proof
      fix c assume c: "c \<in> set (robot_categories db)"
      obtain r where r: "r \<in> set (left_join [r \<leftarrow> robots db. cat_id c = r_category_id r])"
        using left_join_nonempty [of "[r \<leftarrow> robots db. cat_id c = r_category_id r]"]
        by (meson last_in_set)
      obtain p where p: "p \<in> set (case r of None \<Rightarrow> [None]
            | Some r' \<Rightarrow> left_join [p \<leftarrow> photos db. robot_id r' = p_robot_id p])"
        using inner [of r] by (meson last_in_set)
      from c r p have "(c, r, p) \<in> set (category_join db)"
        by (auto simp: category_join_def)
      then have "fst (c, r, p) \<in> fst ` set (category_join db)" by (rule imageI)
      then show "c \<in> set (map fst (category_join db))" by simp
    qed
  qed
  then have "cat_name ` set (map fst (category_join db)) = cat_name ` set (robot_categories db)"
    by simp
  then show ?thesis by (simp add: image_image)
qed

lemma by_category_keys:
  "map fst (select_photos_by_category db)
     = remdups (map (\<lambda>x. cat_name (fst x)) (category_join db))"
  by (simp add: select_photos_by_category_def Let_def comp_def)

lemma by_category_sum:
  "sum_list (map snd (select_photos_by_category db))
     = length [x \<leftarrow> category_join db. snd (snd x) \<noteq> None]"
proof -
  have "sum_list (map snd (select_photos_by_category db))
          = sum_list (map (\<lambda>n. length [x \<leftarrow> category_join db.
                                         cat_name (fst x) = n \<and> snd (snd x) \<noteq> None])
                       (remdups (map (\<lambda>x. cat_name (fst x)) (category_join db))))"
    by (simp add: select_photos_by_category_def Let_def comp_def)
  also have "\<dots> = length [x \<leftarrow> category_join db. snd (snd x) \<noteq> None]"
    by (rule group_sum) simp_all
  finally show ?thesis .
qed

lemma count_key_and:
  "distinct (map f xs) \<Longrightarrow>
   length [x \<leftarrow> xs. f x = k \<and> Q x] = (if list_ex (\<lambda>x. f x = k \<and> Q x) xs then 1 else 0)"
proof (induction xs)
  case Nil
  then show ?case by simp
next
  case (Cons a xs)
  then have d: "distinct (map f xs)" and na: "f a \<notin> f ` set xs" by simp_all
  show ?case
  proof (cases "f a = k")
    case True
    have "\<forall>x \<in> set xs. f x \<noteq> k"
    proof
      fix x assume "x \<in> set xs"
      then have "f x \<in> f ` set xs" by (rule imageI)
      with na True show "f x \<noteq> k" by auto
    qed
    then have none: "[x \<leftarrow> xs. f x = k \<and> Q x] = []" "\<not> list_ex (\<lambda>x. f x = k \<and> Q x) xs"
      by (simp_all add: filter_empty_conv list_ex_iff)
    with True show ?thesis by simp
  next
    case False
    with Cons.IH [OF d] show ?thesis by simp
  qed
qed

lemma sum_list_filter_if:
  "sum_list (map (\<lambda>x. if Q x then (g x :: nat) else 0) xs) = sum_list (map g (filter Q xs))"
  by (induction xs) simp_all

lemma category_rows_fst:
  "x \<in> set (concat (map (\<lambda>r. map (\<lambda>p. (c, r, p)) (inner r)) rs)) \<Longrightarrow> fst x = c"
  by auto

lemma category_rows_named:
  "length [x \<leftarrow> concat (map (\<lambda>r. map (\<lambda>p. (c, r, p)) (inner r)) rs).
             cat_name (fst x) = n \<and> snd (snd x) \<noteq> None]
     = (if cat_name c = n
        then length [x \<leftarrow> concat (map (\<lambda>r. map (\<lambda>p. (c, r, p)) (inner r)) rs).
                       snd (snd x) \<noteq> None]
        else 0)"
proof -
  let ?rows = "concat (map (\<lambda>r. map (\<lambda>p. (c, r, p)) (inner r)) rs)"
  have "[x \<leftarrow> ?rows. cat_name (fst x) = n \<and> snd (snd x) \<noteq> None]
          = [x \<leftarrow> ?rows. cat_name c = n \<and> snd (snd x) \<noteq> None]"
    by (rule filter_cong [OF refl]) (simp add: category_rows_fst)
  then show ?thesis by (cases "cat_name c = n") simp_all
qed

lemma category_join_shape:
  "category_join db =
      concat (map (\<lambda>c. concat (map (\<lambda>r. map (\<lambda>p. (c, r, p))
                 (case r of None \<Rightarrow> [None]
                  | Some r' \<Rightarrow> left_join [p \<leftarrow> photos db. robot_id r' = p_robot_id p]))
              (left_join [r \<leftarrow> robots db. cat_id c = r_category_id r])))
        (robot_categories db))"
  by (simp add: category_join_def)

lemma category_join_named_count:
  "length [x \<leftarrow> category_join db. cat_name (fst x) = n \<and> snd (snd x) \<noteq> None]
     = sum_list (map (\<lambda>c. sum_list (map (\<lambda>r. length [p \<leftarrow> photos db. robot_id r = p_robot_id p])
                                  [r \<leftarrow> robots db. cat_id c = r_category_id r]))
                 [c \<leftarrow> robot_categories db. cat_name c = n])"
proof -
  let ?inner = "\<lambda>r. case r of None \<Rightarrow> [None]
                  | Some r' \<Rightarrow> left_join [p \<leftarrow> photos db. robot_id r' = p_robot_id p]"
  let ?rows = "\<lambda>c. concat (map (\<lambda>r. map (\<lambda>p. (c, r, p)) (?inner r))
                   (left_join [r \<leftarrow> robots db. cat_id c = r_category_id r]))"
  let ?cnt = "\<lambda>c. sum_list (map (\<lambda>r. length [p \<leftarrow> photos db. robot_id r = p_robot_id p])
                                  [r \<leftarrow> robots db. cat_id c = r_category_id r])"
  have "length [x \<leftarrow> category_join db. cat_name (fst x) = n \<and> snd (snd x) \<noteq> None]
          = sum_list (map (\<lambda>c. length [x \<leftarrow> ?rows c. cat_name (fst x) = n \<and> snd (snd x) \<noteq> None])
                       (robot_categories db))"
    unfolding category_join_shape by (rule count_filter_concat)
  also have "\<dots> = sum_list (map (\<lambda>c. if cat_name c = n
                                   then length [x \<leftarrow> ?rows c. snd (snd x) \<noteq> None] else 0)
                            (robot_categories db))"
    by (simp only: category_rows_named)
  also have "\<dots> = sum_list (map (\<lambda>c. if cat_name c = n then ?cnt c else 0) (robot_categories db))"
    by (simp only: category_rows_count)
  also have "\<dots> = sum_list (map ?cnt [c \<leftarrow> robot_categories db. cat_name c = n])"
    by (rule sum_list_filter_if)
  finally show ?thesis .
qed

lemma category_join_named_photos:
  assumes "keys_ok db"
  shows "length [x \<leftarrow> category_join db. cat_name (fst x) = n \<and> snd (snd x) \<noteq> None]
           = length (photos_in_category db n)"
proof -
  from assms have dc: "distinct (map cat_id (robot_categories db))"
    and dr: "distinct (map robot_id (robots db))" by (simp_all add: keys_ok_def)
  let ?cnt = "\<lambda>r. length [p \<leftarrow> photos db. robot_id r = p_robot_id p]"
  let ?cs = "[c \<leftarrow> robot_categories db. cat_name c = n]"
  let ?rs = "[r \<leftarrow> robots db. robot_in_category db n r]"
  let ?hit = "\<lambda>p. list_ex (\<lambda>r. robot_id r = p_robot_id p \<and> robot_in_category db n r) (robots db)"
  have in_cat: "length [c \<leftarrow> ?cs. cat_id c = r_category_id r]
                  = (if robot_in_category db n r then 1 else 0)" for r
  proof -
    have "[c \<leftarrow> ?cs. cat_id c = r_category_id r]
            = [c \<leftarrow> robot_categories db. cat_id c = r_category_id r \<and> cat_name c = n]"
      unfolding filter_filter by (rule filter_cong) auto
    then show ?thesis
      unfolding robot_in_category_def using count_key_and [OF dc] by simp
  qed
  have of_robot: "length [r \<leftarrow> ?rs. robot_id r = p_robot_id p] = (if ?hit p then 1 else 0)" for p
  proof -
    have "[r \<leftarrow> ?rs. robot_id r = p_robot_id p]
            = [r \<leftarrow> robots db. robot_id r = p_robot_id p \<and> robot_in_category db n r]"
      unfolding filter_filter by (rule filter_cong) auto
    then show ?thesis using count_key_and [OF dr] by simp
  qed
  have "length [x \<leftarrow> category_join db. cat_name (fst x) = n \<and> snd (snd x) \<noteq> None]
          = sum_list (map (\<lambda>c. sum_list (map ?cnt [r \<leftarrow> robots db. cat_id c = r_category_id r])) ?cs)"
    by (rule category_join_named_count)
  also have "\<dots> = sum_list (map (\<lambda>r. ?cnt r * length [c \<leftarrow> ?cs. cat_id c = r_category_id r])
                            (robots db))"
    by (rule sum_swap)
  also have "\<dots> = sum_list (map (\<lambda>r. if robot_in_category db n r then ?cnt r else 0) (robots db))"
    unfolding in_cat by (rule arg_cong [where f = sum_list], rule map_cong [OF refl]) simp
  also have "\<dots> = sum_list (map ?cnt ?rs)"
    by (rule sum_list_filter_if)
  also have "\<dots> = sum_list (map (\<lambda>r. sum_list (map (\<lambda>p. 1::nat)
                                         [p \<leftarrow> photos db. robot_id r = p_robot_id p])) ?rs)"
    by (simp only: sum_list_ones)
  also have "\<dots> = sum_list (map (\<lambda>p. 1 * length [r \<leftarrow> ?rs. robot_id r = p_robot_id p])
                            (photos db))"
    by (rule sum_swap)
  also have "\<dots> = sum_list (map (\<lambda>p. if ?hit p then 1 else 0) (photos db))"
    unfolding of_robot by simp
  also have "\<dots> = sum_list (map (\<lambda>p. 1::nat) (filter ?hit (photos db)))"
    by (rule sum_list_filter_if)
  also have "\<dots> = length (photos_in_category db n)"
    unfolding photos_in_category_def by (rule sum_list_ones)
  finally show ?thesis .
qed

lemma map_of_tabulate:
  "map_of (map (\<lambda>k. (k, f k)) ks) n = (if n \<in> set ks then Some (f n) else None)"
  by (induction ks) auto

lemma by_category_entry:
  assumes "keys_ok db"
  shows "map_of (select_photos_by_category db) n
           = (if n \<in> set (map cat_name (robot_categories db))
              then Some (length (photos_in_category db n)) else None)"
proof -
  let ?f = "\<lambda>k. length [x \<leftarrow> category_join db. cat_name (fst x) = k \<and> snd (snd x) \<noteq> None]"
  let ?ks = "remdups (map (\<lambda>x. cat_name (fst x)) (category_join db))"
  have "select_photos_by_category db = map (\<lambda>k. (k, ?f k)) ?ks"
    by (simp add: select_photos_by_category_def Let_def)
  then have "map_of (select_photos_by_category db) n
               = (if n \<in> set ?ks then Some (?f n) else None)"
    by (simp only: map_of_tabulate)
  also have "set ?ks = set (map cat_name (robot_categories db))"
    using category_join_names [of db] by simp
  also have "?f n = length (photos_in_category db n)"
    using assms by (rule category_join_named_photos)
  finally show ?thesis .
qed

text \<open>
  C9. In a database whose identifiers are primary keys and in which every photo has a
  robot and every robot a category, \<^verbatim>\<open>total_photos\<close> of \<^verbatim>\<open>get_statistics\<close> equals the
  sum of the counts in \<^verbatim>\<open>by_category\<close>. \<^verbatim>\<open>by_category\<close> has exactly one entry for each
  category name of the categories table and no other entry, and the entry of a name is
  the number of photos of the robots of the categories of that name: 0 for a category
  without robots and for one whose robots have no photos.
\<close>

theorem get_statistics_by_category:
  assumes "keys_ok (working s)" and "refs_ok (working s)"
  shows "total_photos (get_statistics s) = sum_list (map snd (by_category (get_statistics s)))
       \<and> set (map fst (by_category (get_statistics s)))
           = set (map cat_name (robot_categories (working s)))
       \<and> distinct (map fst (by_category (get_statistics s)))
       \<and> (\<forall>n. map_of (by_category (get_statistics s)) n
               = (if n \<in> set (map cat_name (robot_categories (working s)))
                  then Some (length (photos_in_category (working s) n)) else None))"
proof -
  have fields: "total_photos (get_statistics s) = length (photos (working s))"
    "by_category (get_statistics s) = select_photos_by_category (working s)"
    by (simp_all add: get_statistics_def Let_def)
  have "sum_list (map snd (select_photos_by_category (working s))) = length (photos (working s))"
    unfolding by_category_sum using assms by (rule category_join_photos)
  moreover have "set (map fst (select_photos_by_category (working s)))
                   = set (map cat_name (robot_categories (working s)))"
    unfolding by_category_keys using category_join_names [of "working s"] by simp
  moreover have "distinct (map fst (select_photos_by_category (working s)))"
    unfolding by_category_keys by simp
  moreover have "\<forall>n. map_of (select_photos_by_category (working s)) n
               = (if n \<in> set (map cat_name (robot_categories (working s)))
                  then Some (length (photos_in_category (working s) n)) else None)"
    using by_category_entry [OF assms(1)] by blast
  ultimately show ?thesis unfolding fields by simp
qed

lemma demo_by_category:
  "by_category (get_statistics demo_state) = [(''Drones'', 1), (''AMRs'', 0), (''Robotic Arms'', 0)]"
  by (simp add: get_statistics_def select_photos_by_category_def category_join_def
      demo_state_fields demo_db_def Let_def)

lemma demo_photos_in_category:
  "length (photos_in_category demo_db ''Drones'') = 1"
  "length (photos_in_category demo_db ''AMRs'') = 0"
  "length (photos_in_category demo_db ''Robotic Arms'') = 0"
  by (simp_all add: photos_in_category_def robot_in_category_def demo_db_def)

theorem get_statistics_by_category_witness:
  "keys_ok (working demo_state) \<and> refs_ok (working demo_state)
   \<and> total_photos (get_statistics demo_state)
       = sum_list (map snd (by_category (get_statistics demo_state)))
   \<and> by_category (get_statistics demo_state)
       = [(''Drones'', 1), (''AMRs'', 0), (''Robotic Arms'', 0)]
   \<and> set (map fst (by_category (get_statistics demo_state)))
       = set (map cat_name (robot_categories (working demo_state)))
   \<and> map_of (by_category (get_statistics demo_state)) ''Drones''
       = Some (length (photos_in_category (working demo_state) ''Drones''))
   \<and> map_of (by_category (get_statistics demo_state)) ''AMRs'' = Some 0
   \<and> map_of (by_category (get_statistics demo_state)) ''Robotic Arms'' = Some 0
   \<and> map_of (by_category (get_statistics demo_state)) ''Humanoids'' = None"
proof -
  have k: "keys_ok (working demo_state)" and r: "refs_ok (working demo_state)"
    by (simp_all add: demo_state_fields demo_db_ok)
  have names: "set (map cat_name (robot_categories (working demo_state)))
                 = {''Drones'', ''AMRs'', ''Robotic Arms''}"
    by (simp add: demo_state_fields demo_db_def)
  from get_statistics_by_category [OF k r] have
    all: "total_photos (get_statistics demo_state)
            = sum_list (map snd (by_category (get_statistics demo_state)))"
      "set (map fst (by_category (get_statistics demo_state)))
            = set (map cat_name (robot_categories (working demo_state)))"
      "\<And>n. map_of (by_category (get_statistics demo_state)) n
               = (if n \<in> set (map cat_name (robot_categories (working demo_state)))
                  then Some (length (photos_in_category (working demo_state) n)) else None)"
    by blast+
  have "map_of (by_category (get_statistics demo_state)) ''Drones''
          = Some (length (photos_in_category (working demo_state) ''Drones''))"
    "map_of (by_category (get_statistics demo_state)) ''AMRs'' = Some 0"
    "map_of (by_category (get_statistics demo_state)) ''Robotic Arms'' = Some 0"
    "map_of (by_category (get_statistics demo_state)) ''Humanoids'' = None"
    unfolding all(3) names by (simp_all add: demo_state_fields demo_photos_in_category)
  with all(1,2) k r demo_by_category show ?thesis by simp
qed

subsection \<open>The list of all robots\<close>

lemma select_all_robots_sorted: "sorted_wrt ordered_before (select_all_robots db)"
proof -
  let ?u = "select_all_robots db"
  have "sorted (map robot_order_key ?u)"
    by (simp add: select_all_robots_def Let_def)
  then have "sorted_wrt (\<lambda>a b. robot_order_key a \<le> robot_order_key b) ?u"
    by (simp only: sorted_map)
  moreover have "\<And>a b. robot_order_key a \<le> robot_order_key b \<Longrightarrow> ordered_before a b"
    by (auto simp: robot_order_key_def ordered_before_def less_eq_prod_def)
  ultimately show ?thesis by (rule sorted_wrt_mono_rel [rotated]) simp
qed

lemma remdups_block:
  "a \<notin> set ys \<Longrightarrow> remdups (replicate (Suc n) a @ ys) = a # remdups ys"
  by (induction n) simp_all

lemma map_const_replicate:
  "(\<And>x. x \<in> set xs \<Longrightarrow> f x = a) \<Longrightarrow> map f xs = replicate (length xs) a"
  by (induction xs) simp_all

lemma remdups_concat_keys:
  assumes "distinct (map k xs)"
    and "\<And>x. x \<in> set xs \<Longrightarrow> g x \<noteq> []"
    and "\<And>x j. x \<in> set xs \<Longrightarrow> j \<in> set (g x) \<Longrightarrow> kk j = k x"
  shows "remdups (map kk (concat (map g xs))) = map k xs"
  using assms
proof (induction xs)
  case Nil
  then show ?case by simp
next
  case (Cons x xs)
  have ih: "remdups (map kk (concat (map g xs))) = map k xs"
    using Cons.prems by (intro Cons.IH) simp_all
  have blk: "map kk (g x) = replicate (length (g x)) (k x)"
    by (rule map_const_replicate) (simp add: Cons.prems(3))
  obtain n where n: "length (g x) = Suc n"
    using Cons.prems(2) [of x] by (cases "g x") simp_all
  have "set (map kk (concat (map g xs))) = set (remdups (map kk (concat (map g xs))))"
    by simp
  also have "\<dots> = set (map k xs)" by (simp only: ih)
  finally have "k x \<notin> set (map kk (concat (map g xs)))"
    using Cons.prems(1) by simp
  then have "remdups (replicate (Suc n) (k x) @ map kk (concat (map g xs)))
               = k x # remdups (map kk (concat (map g xs)))"
    by (rule remdups_block)
  then show ?case by (simp add: blk n ih del: replicate.simps remdups.simps)
qed

lemma filter_concat_key:
  assumes "distinct (map k xs)" and "x \<in> set xs"
    and "\<And>y j. y \<in> set xs \<Longrightarrow> j \<in> set (g y) \<Longrightarrow> kk j = k y"
  shows "[j \<leftarrow> concat (map g xs). kk j = k x] = g x"
  using assms
proof (induction xs)
  case Nil
  then show ?case by simp
next
  case (Cons a xs)
  have keys: "\<And>y j. y \<in> set xs \<Longrightarrow> j \<in> set (g y) \<Longrightarrow> kk j = k y"
    using Cons.prems(3) by simp
  have ka: "\<And>j. j \<in> set (g a) \<Longrightarrow> kk j = k a"
    using Cons.prems(3) by simp
  show ?case
  proof (cases "a = x")
    case True
    have "k x \<notin> set (map k xs)" using Cons.prems(1) True by simp
    then have "\<And>j. j \<in> set (concat (map g xs)) \<Longrightarrow> kk j \<noteq> k x"
      using keys by (auto simp: image_iff) 
    then have "[j \<leftarrow> concat (map g xs). kk j = k x] = []"
      by (simp add: filter_empty_conv)
    moreover have "[j \<leftarrow> g a. kk j = k x] = g a"
      using ka True by (simp add: filter_id_conv)
    ultimately show ?thesis using True by simp
  next
    case False
    with Cons.prems have x: "x \<in> set xs" and ne: "k a \<noteq> k x"
      by (auto simp: image_iff)
    have "[j \<leftarrow> g a. kk j = k x] = []"
      using ka ne by (simp add: filter_empty_conv)
    moreover have "[j \<leftarrow> concat (map g xs). kk j = k x] = g x"
      using Cons.prems(1) x keys by (intro Cons.IH) simp_all
    ultimately show ?thesis by simp
  qed
qed

lemma robot_join_blocks: "robot_join db = concat (map (robot_block db) (robots db))"
  by (simp add: robot_join_def robot_block_def [abs_def])

lemma robot_block_key: "j \<in> set (robot_block db r) \<Longrightarrow> robot_id (fst j) = robot_id r"
  by (auto simp: robot_block_def split: if_splits)

lemma robot_block_single:
  assumes "distinct (map cat_id (robot_categories db))"
    and "c \<in> set (robot_categories db)" and "r_category_id r = cat_id c"
  shows "robot_block db r =
           map (\<lambda>p. (r, c, p)) (left_join [p \<leftarrow> photos db. robot_id r = p_robot_id p])"
  unfolding robot_block_def assms(3)
  using assms(1,2) by (rule concat_key_hit)

lemma robot_group_block:
  "robot_group (map (\<lambda>p. (r, c, p)) (left_join [p \<leftarrow> photos db. robot_id r = p_robot_id p]))
     = [robot_row_of db r c]"
proof -
  let ?ps = "[p \<leftarrow> photos db. robot_id r = p_robot_id p]"
  have cnt: "length [x \<leftarrow> map (\<lambda>p. (r, c, p)) (left_join ?ps). snd (snd x) \<noteq> None] = length ?ps"
    by (rule has_photo_left_join)
  obtain p rest where hd: "left_join ?ps = p # rest"
    using left_join_nonempty [of ?ps] by (cases "left_join ?ps") simp_all
  have "robot_group (map (\<lambda>p. (r, c, p)) (left_join ?ps))
          = [\<lparr>rr_robot_id = robot_id r, rr_manufacturer = manufacturer r,
              rr_model_name = model_name r, rr_robot_type = robot_type r,
              rr_year_released = year_released r, rr_category_name = cat_name c,
              rr_photo_count =
                length [x \<leftarrow> map (\<lambda>p. (r, c, p)) (left_join ?ps). snd (snd x) \<noteq> None]\<rparr>]"
    unfolding robot_group_def hd by simp
  then show ?thesis unfolding cnt robot_row_of_def .
qed

lemma robot_has_category:
  assumes "refs_ok db" and "r \<in> set (robots db)"
  obtains c where "c \<in> set (robot_categories db)" and "r_category_id r = cat_id c"
proof -
  from assms have "r_category_id r \<in> set (map cat_id (robot_categories db))"
    by (simp add: refs_ok_def list_all_iff)
  then show ?thesis using that by auto
qed

lemma robot_block_nonempty:
  assumes "keys_ok db" and "refs_ok db" and "r \<in> set (robots db)"
  shows "robot_block db r \<noteq> []"
proof -
  from assms(2,3) obtain c where c: "c \<in> set (robot_categories db)" "r_category_id r = cat_id c"
    by (rule robot_has_category)
  from assms(1) have "distinct (map cat_id (robot_categories db))" by (simp add: keys_ok_def)
  from robot_block_single [OF this c] show ?thesis by (simp add: left_join_nonempty)
qed

lemma robot_ids_of_join:
  assumes "keys_ok db" and "refs_ok db"
  shows "remdups (map (\<lambda>x. robot_id (fst x)) (robot_join db)) = map robot_id (robots db)"
  unfolding robot_join_blocks
proof (rule remdups_concat_keys)
  show "distinct (map robot_id (robots db))" using assms(1) by (simp add: keys_ok_def)
  show "robot_block db x \<noteq> []" if "x \<in> set (robots db)" for x
    using assms that by (rule robot_block_nonempty)
  show "robot_id (fst j) = robot_id x" if "j \<in> set (robot_block db x)" for x j
    using that by (rule robot_block_key)
qed

lemma robot_group_of_join:
  assumes "keys_ok db" and "refs_ok db" and "r \<in> set (robots db)"
    and "c \<in> set (robot_categories db)" and "r_category_id r = cat_id c"
  shows "robot_group [x \<leftarrow> robot_join db. robot_id (fst x) = robot_id r] = [robot_row_of db r c]"
proof -
  from assms(1) have dr: "distinct (map robot_id (robots db))"
    and dc: "distinct (map cat_id (robot_categories db))" by (simp_all add: keys_ok_def)
  have "[x \<leftarrow> concat (map (robot_block db) (robots db)). robot_id (fst x) = robot_id r]
          = robot_block db r"
    using dr assms(3) by (rule filter_concat_key) (rule robot_block_key)
  then have "[x \<leftarrow> robot_join db. robot_id (fst x) = robot_id r] = robot_block db r"
    by (simp only: robot_join_blocks)
  also have "\<dots> = map (\<lambda>p. (r, c, p)) (left_join [p \<leftarrow> photos db. robot_id r = p_robot_id p])"
    using dc assms(4,5) by (rule robot_block_single)
  finally show ?thesis by (simp only: robot_group_block)
qed

lemma robot_groups_unsorted:
  assumes "keys_ok db" and "refs_ok db"
  shows "select_all_robots db =
           sort_key robot_order_key
             (concat (map (\<lambda>r. robot_group [x \<leftarrow> robot_join db. robot_id (fst x) = robot_id r])
                          (robots db)))"
  by (simp add: select_all_robots_def Let_def robot_ids_of_join [OF assms] comp_def)

lemma robot_group_key:
  assumes "keys_ok db" and "refs_ok db" and "r \<in> set (robots db)"
    and "row \<in> set (robot_group [x \<leftarrow> robot_join db. robot_id (fst x) = robot_id r])"
  shows "rr_robot_id row = robot_id r"
proof -
  from assms(2,3) obtain c where c: "c \<in> set (robot_categories db)" "r_category_id r = cat_id c"
    by (rule robot_has_category)
  from assms(4) robot_group_of_join [OF assms(1,2,3) c] show ?thesis
    by (simp add: robot_row_of_def)
qed

lemma select_all_robots_row:
  assumes "keys_ok db" and "refs_ok db" and "r \<in> set (robots db)"
    and "c \<in> set (robot_categories db)" and "r_category_id r = cat_id c"
  shows "[row \<leftarrow> select_all_robots db. rr_robot_id row = robot_id r] = [robot_row_of db r c]"
proof -
  let ?g = "\<lambda>r. robot_group [x \<leftarrow> robot_join db. robot_id (fst x) = robot_id r]"
  from assms(1) have dr: "distinct (map robot_id (robots db))" by (simp add: keys_ok_def)
  have "[row \<leftarrow> concat (map ?g (robots db)). rr_robot_id row = robot_id r] = ?g r"
    using dr assms(3) by (rule filter_concat_key) (rule robot_group_key [OF assms(1,2)])
  also have "\<dots> = [robot_row_of db r c]" using assms by (rule robot_group_of_join)
  finally have "[row \<leftarrow> concat (map ?g (robots db)). rr_robot_id row = robot_id r]
                  = [robot_row_of db r c]" .
  then show ?thesis
    unfolding robot_groups_unsorted [OF assms(1,2)] filter_sort by simp
qed

lemma select_all_robots_length:
  assumes "keys_ok db" and "refs_ok db"
  shows "length (select_all_robots db) = length (robots db)"
proof -
  let ?g = "\<lambda>r. robot_group [x \<leftarrow> robot_join db. robot_id (fst x) = robot_id r]"
  have one: "length (?g r) = 1" if "r \<in> set (robots db)" for r
  proof -
    from assms(2) that obtain c where c: "c \<in> set (robot_categories db)" "r_category_id r = cat_id c"
      by (rule robot_has_category)
    from robot_group_of_join [OF assms that c] show ?thesis by simp
  qed
  have "length (concat (map ?g (robots db))) = length (filter (\<lambda>r. True) (robots db))"
    by (rule length_concat_filter) (simp add: one)
  then show ?thesis unfolding robot_groups_unsorted [OF assms] by simp
qed

lemma add_robot_result:
  assumes "add_robot s cname manuf model rtype yr specs = (Inr rid, s')"
  obtains c where "c \<in> set (robot_categories (working s))" and "cat_name c = cname"
    and "rid = new_rowid (map robot_id (robots (working s)))"
    and "working s' = (working s)\<lparr>robots := robots (working s) @
           [\<lparr>robot_id = rid, r_category_id = cat_id c, manufacturer = manuf,
             model_name = model, robot_type = rtype, year_released = yr,
             specifications = specs\<rparr>]\<rparr>"
proof (cases "select_category_id (working s) cname")
  case Nil
  with assms show ?thesis by (simp add: add_robot_def)
next
  case (Cons cid rest)
  then have "cid \<in> set (select_category_id (working s) cname)" by simp
  then obtain c where c: "c \<in> set (robot_categories (working s))" "cat_name c = cname"
    "cat_id c = cid"
    by (auto simp: select_category_id_def)
  from assms Cons c(3) have
    "rid = new_rowid (map robot_id (robots (working s)))"
    "working s' = (working s)\<lparr>robots := robots (working s) @
           [\<lparr>robot_id = rid, r_category_id = cat_id c, manufacturer = manuf,
             model_name = model, robot_type = rtype, year_released = yr,
             specifications = specs\<rparr>]\<rparr>"
    by (auto simp: add_robot_def insert_robot_def commit_def Let_def)
  with c(1,2) show ?thesis by (rule that)
qed

lemma keys_ok_add:
  assumes "keys_ok db" and "robot_id r \<notin> set (map robot_id (robots db))"
  shows "keys_ok (db\<lparr>robots := robots db @ [r]\<rparr>)"
  using assms by (simp add: keys_ok_def)

lemma refs_ok_add:
  assumes "refs_ok db" and "r_category_id r \<in> set (map cat_id (robot_categories db))"
  shows "refs_ok (db\<lparr>robots := robots db @ [r]\<rparr>)"
  using assms by (auto simp: refs_ok_def list_all_iff)

lemma no_photos_of_fresh:
  assumes "refs_ok db" and "rid \<notin> set (map robot_id (robots db))"
  shows "[p \<leftarrow> photos db. rid = p_robot_id p] = []"
proof -
  have "p_robot_id p \<noteq> rid" if "p \<in> set (photos db)" for p
  proof
    assume "p_robot_id p = rid"
    moreover from assms(1) that have "p_robot_id p \<in> set (map robot_id (robots db))"
      by (simp add: refs_ok_def list_all_iff)
    ultimately show False using assms(2) by simp
  qed
  then show ?thesis by (auto simp: filter_empty_conv)
qed

lemma list_all_robots_after_add:
  assumes "keys_ok (working s)" and "refs_ok (working s)"
    and "add_robot s cname manuf model rtype yr specs = (Inr rid, s')"
  shows "\<exists>row. [x \<leftarrow> list_all_robots s'. rr_robot_id x = rid] = [row]
           \<and> rr_photo_count row = 0 \<and> rr_category_name row = cname
           \<and> rr_manufacturer row = manuf \<and> rr_model_name row = model
           \<and> rr_robot_type row = rtype \<and> rr_year_released row = yr"
proof -
  from assms(3) obtain c where c: "c \<in> set (robot_categories (working s))" "cat_name c = cname"
    and rid: "rid = new_rowid (map robot_id (robots (working s)))"
    and w: "working s' = (working s)\<lparr>robots := robots (working s) @
           [\<lparr>robot_id = rid, r_category_id = cat_id c, manufacturer = manuf,
             model_name = model, robot_type = rtype, year_released = yr,
             specifications = specs\<rparr>]\<rparr>"
    by (rule add_robot_result)
  let ?r = "\<lparr>robot_id = rid, r_category_id = cat_id c, manufacturer = manuf,
             model_name = model, robot_type = rtype, year_released = yr,
             specifications = specs\<rparr>"
  let ?db = "working s'"
  have fresh: "rid \<notin> set (map robot_id (robots (working s)))"
    unfolding rid by (rule new_rowid_fresh)
  have k: "keys_ok ?db" unfolding w using assms(1) fresh by (intro keys_ok_add) simp_all
  have r: "refs_ok ?db" unfolding w using assms(2) c(1) by (intro refs_ok_add) simp_all
  have mem: "?r \<in> set (robots ?db)" "c \<in> set (robot_categories ?db)"
    "r_category_id ?r = cat_id c"
    using c(1) by (simp_all add: w)
  have "[x \<leftarrow> select_all_robots ?db. rr_robot_id x = robot_id ?r] = [robot_row_of ?db ?r c]"
    using k r mem by (rule select_all_robots_row)
  then have row: "[x \<leftarrow> list_all_robots s'. rr_robot_id x = rid] = [robot_row_of ?db ?r c]"
    by (simp add: list_all_robots_def)
  have "[p \<leftarrow> photos ?db. rid = p_robot_id p] = []"
    using no_photos_of_fresh [OF assms(2) fresh] by (simp add: w)
  then have "rr_photo_count (robot_row_of ?db ?r c) = 0"
    by (simp add: robot_row_of_def)
  with row c(2) show ?thesis by (simp add: robot_row_of_def)
qed

text \<open>
  C8. In a database whose identifiers are primary keys and in which every photo has a
  robot and every robot a category, \<^verbatim>\<open>list_all_robots\<close> returns a list ordered by category
  name, then manufacturer, then model name, with as many rows as there are robots and,
  for every robot, exactly one row of its identifier, which carries the robot's columns,
  its category's name and the number of its photos (0 for a robot without photos). In
  particular, after \<^verbatim>\<open>add_robot\<close> has succeeded, the list holds exactly one row for the
  identifier it returned, with the values passed in and a photo count of 0.
\<close>

theorem list_all_robots_rows:
  assumes "keys_ok (working s)" and "refs_ok (working s)"
  shows "sorted_wrt ordered_before (list_all_robots s)
       \<and> length (list_all_robots s) = length (robots (working s))
       \<and> (\<forall>r \<in> set (robots (working s)). \<forall>c \<in> set (robot_categories (working s)).
            r_category_id r = cat_id c \<longrightarrow>
              [row \<leftarrow> list_all_robots s. rr_robot_id row = robot_id r]
                = [robot_row_of (working s) r c])
       \<and> (add_robot s cname manuf model rtype yr specs = (Inr rid, s') \<longrightarrow>
            (\<exists>row. [x \<leftarrow> list_all_robots s'. rr_robot_id x = rid] = [row]
               \<and> rr_photo_count row = 0 \<and> rr_category_name row = cname
               \<and> rr_manufacturer row = manuf \<and> rr_model_name row = model
               \<and> rr_robot_type row = rtype \<and> rr_year_released row = yr))"
proof (intro conjI ballI impI)
  show "sorted_wrt ordered_before (list_all_robots s)"
    unfolding list_all_robots_def by (rule select_all_robots_sorted)
  show "length (list_all_robots s) = length (robots (working s))"
    unfolding list_all_robots_def using assms by (rule select_all_robots_length)
  show "[row \<leftarrow> list_all_robots s. rr_robot_id row = robot_id r] = [robot_row_of (working s) r c]"
    if "r \<in> set (robots (working s))" "c \<in> set (robot_categories (working s))"
      "r_category_id r = cat_id c" for r c
    unfolding list_all_robots_def using assms that by (rule select_all_robots_row)
  show "\<exists>row. [x \<leftarrow> list_all_robots s'. rr_robot_id x = rid] = [row]
               \<and> rr_photo_count row = 0 \<and> rr_category_name row = cname
               \<and> rr_manufacturer row = manuf \<and> rr_model_name row = model
               \<and> rr_robot_type row = rtype \<and> rr_year_released row = yr"
    if "add_robot s cname manuf model rtype yr specs = (Inr rid, s')"
    using assms that by (rule list_all_robots_after_add)
qed

lemma demo_list_all_robots:
  "map (\<lambda>row. (rr_robot_id row, rr_category_name row, rr_manufacturer row, rr_photo_count row))
       (list_all_robots demo_state)
     = [(2, ''AMRs'', ''Acme'', 0), (1, ''Drones'', ''DJI'', 1)]"
  by (simp add: list_all_robots_def select_all_robots_def robot_join_def robot_group_def
      robot_order_key_def demo_state_fields demo_db_def Let_def less_eq_prod_def
      less_list_code less_eq_list_code less_char_def less_eq_char_def)

lemma demo_add_robot:
  "fst (add_robot demo_state ''AMRs'' ''Acme'' ''X2'' ''tugger'' (Some 2024) None) = Inr 3"
  by (simp add: add_robot_def select_category_id_def insert_robot_def demo_state_fields
      demo_db_def Let_def)

theorem list_all_robots_rows_witness:
  "keys_ok (working demo_state) \<and> refs_ok (working demo_state)
   \<and> sorted_wrt ordered_before (list_all_robots demo_state)
   \<and> length (list_all_robots demo_state) = length (robots (working demo_state))
   \<and> map (\<lambda>row. (rr_robot_id row, rr_category_name row, rr_manufacturer row, rr_photo_count row))
        (list_all_robots demo_state)
       = [(2, ''AMRs'', ''Acme'', 0), (1, ''Drones'', ''DJI'', 1)]
   \<and> (\<exists>row. [x \<leftarrow> list_all_robots
                     (snd (add_robot demo_state ''AMRs'' ''Acme'' ''X2'' ''tugger'' (Some 2024) None)).
                rr_robot_id x = 3] = [row]
          \<and> rr_photo_count row = 0 \<and> rr_category_name row = ''AMRs''
          \<and> rr_manufacturer row = ''Acme'' \<and> rr_model_name row = ''X2'')"
proof -
  have k: "keys_ok (working demo_state)" and r: "refs_ok (working demo_state)"
    by (simp_all add: demo_state_fields demo_db_ok)
  let ?s' = "snd (add_robot demo_state ''AMRs'' ''Acme'' ''X2'' ''tugger'' (Some 2024) None)"
  have a: "add_robot demo_state ''AMRs'' ''Acme'' ''X2'' ''tugger'' (Some 2024) None = (Inr 3, ?s')"
    using demo_add_robot by (simp add: prod_eq_iff)
  from list_all_robots_rows [OF k r, of "''AMRs''" "''Acme''" "''X2''" "''tugger''" "Some 2024" None 3 ?s'] a
  show ?thesis using k r demo_list_all_robots by blast
qed


subsection \<open>The write operations keep the constraints\<close>

text \<open>
  The constraints assumed above hold in the sample catalogue and are kept by
  \<^verbatim>\<open>add_robot\<close>, \<^verbatim>\<open>add_tag_to_photo\<close> and \<^verbatim>\<open>add_photo\<close>, whether the call returns or
  raises; so they hold in every state these operations reach from a catalogue that
  satisfies them.
\<close>

lemma add_robot_keeps_integrity:
  assumes "keys_ok (working s)" and "refs_ok (working s)"
  shows "keys_ok (working (snd (add_robot s cname manuf model rtype yr specs)))
       \<and> refs_ok (working (snd (add_robot s cname manuf model rtype yr specs)))"
proof (cases "add_robot s cname manuf model rtype yr specs")
  case (Pair res s')
  show ?thesis
  proof (cases res)
    case (Inl e)
    with Pair have "s' = s"
      by (auto simp: add_robot_def split: list.splits prod.splits)
    with Pair assms show ?thesis by simp
  next
    case (Inr rid)
    with Pair have run: "add_robot s cname manuf model rtype yr specs = (Inr rid, s')" by simp
    then obtain c where c: "c \<in> set (robot_categories (working s))"
      and rid: "rid = new_rowid (map robot_id (robots (working s)))"
      and w: "working s' = (working s)\<lparr>robots := robots (working s) @
           [\<lparr>robot_id = rid, r_category_id = cat_id c, manufacturer = manuf,
             model_name = model, robot_type = rtype, year_released = yr,
             specifications = specs\<rparr>]\<rparr>"
      by (rule add_robot_result)
    have fresh: "rid \<notin> set (map robot_id (robots (working s)))"
      unfolding rid by (rule new_rowid_fresh)
    have "keys_ok (working s')" unfolding w using assms(1) fresh by (intro keys_ok_add) simp_all
    moreover have "refs_ok (working s')"
      unfolding w using assms(2) c by (intro refs_ok_add) simp_all
    ultimately show ?thesis using Pair by simp
  qed
qed

lemma add_tag_to_photo_tables:
  "robot_categories (working (snd (add_tag_to_photo s pid name))) = robot_categories (working s)"
  "robots (working (snd (add_tag_to_photo s pid name))) = robots (working s)"
  "photos (working (snd (add_tag_to_photo s pid name))) = photos (working s)"
  by (simp_all add: add_tag_to_photo_def Let_def commit_def insert_tag_other_tables
      insert_link_tables split: list.split)

lemma add_tag_to_photo_keeps_unique:
  assumes "tags_ok (working s)"
  shows "tags_ok (working (snd (add_tag_to_photo s pid name)))"
proof -
  let ?w1 = "insert_or_ignore_tag (working s) name"
  from assms have d1: "distinct (map tag_name (tags ?w1))" "distinct (photo_tags ?w1)"
    by (simp_all add: tags_ok_def distinct_after_insert_tag insert_tag_other_tables)
  have "tags_ok ?w1" using d1 by (simp add: tags_ok_def)
  moreover have "tags_ok (insert_or_ignore_photo_tag ?w1 pid tid)" for tid
    using d1 by (simp add: tags_ok_def distinct_after_insert_link insert_link_tables)
  ultimately show ?thesis
    by (simp add: add_tag_to_photo_def Let_def commit_def split: list.split)
qed

lemma add_tags_tables:
  "robot_categories (working (snd (add_tags s pid names))) = robot_categories (working s)
   \<and> robots (working (snd (add_tags s pid names))) = robots (working s)
   \<and> photos (working (snd (add_tags s pid names))) = photos (working s)"
proof (induction names arbitrary: s)
  case Nil
  then show ?case by simp
next
  case (Cons n names)
  obtain res s1 where step: "add_tag_to_photo s pid n = (res, s1)"
    by (cases "add_tag_to_photo s pid n")
  have t: "robot_categories (working s1) = robot_categories (working s)"
    "robots (working s1) = robots (working s)" "photos (working s1) = photos (working s)"
    using add_tag_to_photo_tables [of s pid n] step by simp_all
  show ?case
  proof (cases res)
    case (Inl e)
    with step t show ?thesis by simp
  next
    case (Inr u)
    with step t Cons.IH [of s1] show ?thesis by simp
  qed
qed

lemma add_tags_keeps_unique:
  "tags_ok (working s) \<Longrightarrow> tags_ok (working (snd (add_tags s pid names)))"
proof (induction names arbitrary: s)
  case Nil
  then show ?case by simp
next
  case (Cons n names)
  obtain res s1 where step: "add_tag_to_photo s pid n = (res, s1)"
    by (cases "add_tag_to_photo s pid n")
  have u: "tags_ok (working s1)"
    using add_tag_to_photo_keeps_unique [OF Cons.prems, of pid n] step by simp
  show ?case
  proof (cases res)
    case (Inl e)
    with step u show ?thesis by simp
  next
    case (Inr v)
    with step Cons.IH [OF u] show ?thesis by simp
  qed
qed

lemma copy2_working: "working (snd (copy2 s src dst)) = working s"
  by (simp add: copy2_def split: option.split)

lemma commit_working: "working (commit s) = working s"
  by (simp add: commit_def)

lemma integrity_tables:
  assumes "robot_categories db' = robot_categories db" and "robots db' = robots db"
    and "photos db' = photos db"
  shows "keys_ok db' = keys_ok db" and "refs_ok db' = refs_ok db"
  using assms by (simp_all add: keys_ok_def refs_ok_def)

lemma uniqueness_tables:
  assumes "tags db' = tags db" and "photo_tags db' = photo_tags db"
  shows "tags_ok db' = tags_ok db"
  using assms by (simp add: tags_ok_def)

lemma insert_photo_integrity:
  assumes "keys_ok db" and "refs_ok db" and "rid \<in> set (map robot_id (robots db))"
  shows "keys_ok (snd (insert_photo db rid fname fpath date ptype kb descr phot))
       \<and> refs_ok (snd (insert_photo db rid fname fpath date ptype kb descr phot))"
  using assms by (simp add: insert_photo_def Let_def keys_ok_def refs_ok_def)

lemma insert_photo_unique:
  "tags_ok (snd (insert_photo db rid fname fpath date ptype kb descr phot)) = tags_ok db"
  by (simp add: insert_photo_def Let_def tags_ok_def)

lemma add_tags_keeps_ok:
  assumes "db_ok (working s)"
  shows "db_ok (working (snd (add_tags s pid names)))"
proof -
  let ?db' = "working (snd (add_tags s pid names))"
  from add_tags_tables [of s pid names] have
    t: "robot_categories ?db' = robot_categories (working s)"
       "robots ?db' = robots (working s)" "photos ?db' = photos (working s)"
    by simp_all
  have "keys_ok ?db' = keys_ok (working s)" using t by (rule integrity_tables)
  moreover have "refs_ok ?db' = refs_ok (working s)" using t by (rule integrity_tables)
  moreover have "tags_ok ?db'" using assms by (intro add_tags_keeps_unique) (simp add: db_ok_def)
  ultimately show ?thesis using assms by (simp add: db_ok_def)
qed

lemma add_photo_after_insert:
  assumes "path_exists s source_file" and "sqlite_integer rid"
    and "select_robot_category (working s) rid = cname # rest"
    and "copy2 s source_file
           (path_join (path_join (photo_storage s)
              (replace_char CHR '' '' CHR ''_'' (map lower_char cname)))
              (timestamp clk @ ''_'' @ path_name source_file)) = (Inr u, s1)"
    and "st_size s1
           (path_join (path_join (photo_storage s)
              (replace_char CHR '' '' CHR ''_'' (map lower_char cname)))
              (timestamp clk @ ''_'' @ path_name source_file)) = Inr bytes"
    and "insert_photo (working s1) rid (timestamp clk @ ''_'' @ path_name source_file)
           (path_join (path_join (photo_storage s)
              (replace_char CHR '' '' CHR ''_'' (map lower_char cname)))
              (timestamp clk @ ''_'' @ path_name source_file))
           (today clk) ptype (int bytes div 1024) descr phot = (pid, db)"
  shows "add_photo s clk rid source_file ptype descr tgs phot =
           (case (if supplied tgs then add_tags (s1\<lparr>working := db\<rparr>) pid (the tgs)
                  else (Inr (), s1\<lparr>working := db\<rparr>)) of
              (Inl e, s3) \<Rightarrow> (Inl e, s3)
            | (Inr v, s3) \<Rightarrow> (Inr pid, commit s3))"
  unfolding add_photo_def Let_def using assms by simp

lemma add_photo_keeps_ok:
  assumes "db_ok (working s)"
  shows "db_ok (working (snd (add_photo s clk rid source_file ptype descr tgs phot)))"
proof (cases "path_exists s source_file \<and> sqlite_integer rid")
  case False
  with assms show ?thesis by (auto simp: add_photo_def)
next
  case True
  then have pe: "path_exists s source_file" and ok_id: "sqlite_integer rid" by simp_all
  show ?thesis
  proof (cases "select_robot_category (working s) rid")
    case Nil
    with pe ok_id assms show ?thesis by (simp add: add_photo_def)
  next
    case (Cons cname rest)
    then have rid: "rid \<in> set (map robot_id (robots (working s)))"
      using select_robot_category_empty [of rid "working s"] by auto
    let ?fname = "timestamp clk @ ''_'' @ path_name source_file"
    let ?dest = "path_join (path_join (photo_storage s)
        (replace_char CHR '' '' CHR ''_'' (map lower_char cname))) ?fname"
    obtain cres s1 where cp: "copy2 s source_file ?dest = (cres, s1)"
      by (cases "copy2 s source_file ?dest")
    have w1: "working s1 = working s" using copy2_working [of s source_file ?dest] cp by simp
    show ?thesis
    proof (cases cres)
      case (Inl e)
      with pe ok_id Cons cp w1 assms show ?thesis by (simp add: add_photo_def Let_def)
    next
      case (Inr u)
      show ?thesis
      proof (cases "st_size s1 ?dest")
        case (Inl e)
        with pe ok_id Cons cp w1 assms \<open>cres = Inr u\<close> show ?thesis
          by (simp add: add_photo_def Let_def)
      next
        case size: (Inr bytes)
        obtain pid db where ins: "insert_photo (working s1) rid
            ?fname ?dest (today clk) ptype
            (int bytes div 1024) descr phot = (pid, db)"
          by (cases "insert_photo (working s1) rid
            ?fname ?dest (today clk) ptype
            (int bytes div 1024) descr phot")
        have ok_db: "db_ok db"
          using insert_photo_integrity [of "working s" rid
              ?fname ?dest "today clk" ptype
              "int bytes div 1024" descr phot]
            insert_photo_unique [of "working s" rid
              ?fname ?dest "today clk" ptype
              "int bytes div 1024" descr phot]
            assms rid ins w1
          by (simp add: db_ok_def)
        let ?s2 = "s1\<lparr>working := db\<rparr>"
        have ok2: "db_ok (working ?s2)" using ok_db by simp
        obtain tres s3 where tg:
          "(if supplied tgs then add_tags ?s2 pid (the tgs) else (Inr (), ?s2)) = (tres, s3)"
          by (cases "if supplied tgs then add_tags ?s2 pid (the tgs) else (Inr (), ?s2)")
        have ok3: "db_ok (working s3)"
        proof (cases "supplied tgs")
          case True
          with tg have "s3 = snd (add_tags ?s2 pid (the tgs))" by simp
          then show ?thesis using add_tags_keeps_ok [OF ok2, of pid "the tgs"] by simp
        next
          case False
          with tg ok2 show ?thesis by auto
        qed
        have run: "add_photo s clk rid source_file ptype descr tgs phot =
                     (case tres of Inl e \<Rightarrow> (Inl e, s3) | Inr v \<Rightarrow> (Inr pid, commit s3))"
          unfolding add_photo_after_insert [OF pe ok_id Cons cp [unfolded \<open>cres = Inr u\<close>] size ins] tg
          by simp
        show ?thesis unfolding run using ok3 by (cases tres) (simp_all add: commit_working)
      qed
    qed
  qed
qed

lemma add_robot_keeps_ok:
  assumes "db_ok (working s)"
  shows "db_ok (working (snd (add_robot s cname manuf model rtype yr specs)))"
proof -
  let ?s' = "snd (add_robot s cname manuf model rtype yr specs)"
  from assms have "keys_ok (working s)" "refs_ok (working s)" by (simp_all add: db_ok_def)
  then have kr: "keys_ok (working ?s') \<and> refs_ok (working ?s')"
    by (rule add_robot_keeps_integrity)
  have "tags (working ?s') = tags (working s)" "photo_tags (working ?s') = photo_tags (working s)"
    by (simp_all add: add_robot_def insert_robot_def commit_def Let_def split: list.split)
  then have "tags_ok (working ?s') = tags_ok (working s)" by (rule uniqueness_tables)
  with kr assms show ?thesis by (simp add: db_ok_def)
qed

lemma add_tag_to_photo_keeps_ok:
  assumes "db_ok (working s)"
  shows "db_ok (working (snd (add_tag_to_photo s pid name)))"
proof -
  let ?db' = "working (snd (add_tag_to_photo s pid name))"
  have t: "robot_categories ?db' = robot_categories (working s)"
       "robots ?db' = robots (working s)" "photos ?db' = photos (working s)"
    by (rule add_tag_to_photo_tables)+
  have "keys_ok ?db' = keys_ok (working s)" using t by (rule integrity_tables)
  moreover have "refs_ok ?db' = refs_ok (working s)" using t by (rule integrity_tables)
  moreover have "tags_ok ?db'"
    using assms by (intro add_tag_to_photo_keeps_unique) (simp add: db_ok_def)
  ultimately show ?thesis using assms by (simp add: db_ok_def)
qed

lemma demo_db_constraints: "db_ok demo_db"
  by (simp add: db_ok_def demo_db_ok tags_ok_def demo_db_tables)

end
